theory Spec2Isabelle
  imports Complex_Main "HOL-Library.AList" "HOL-Library.Product_Lexorder"
    "HOL-Library.Multiset" "HOL-Library.Sublist" "HOL-Library.Word"
begin

section \<open>The ensemble builder of autoPyTorch: data model\<close>

text \<open>
  The development embeds \<^verbatim>\<open>EnsembleBuilder\<close> of
  \<^verbatim>\<open>autoPyTorch/ensemble/ensemble_builder.py\<close>. Conventions:
  \<^item> a Python \<^verbatim>\<open>float\<close> is the real number it stands for, and a loss is such a
    number or \<^verbatim>\<open>np.inf\<close> (type \<open>loss\<close>); an arithmetic operation on floats is the
    exact operation followed by the rounding \<open>fl\<close> of the environment, and the
    built-in \<^verbatim>\<open>sum\<close> of floats is its \<open>float_sum\<close>; comparisons are exact; NaN and
    minus infinity as losses, and overflow, are outside the model;
  \<^item> a Python \<^verbatim>\<open>dict\<close> is an association list in insertion order, updated with
    \<open>AList.update\<close> (an existing key keeps its place, a new key goes last);
  \<^item> every \<^verbatim>\<open>raise\<close> is a value of type \<open>error\<close>; a method that mutates
    \<^verbatim>\<open>self\<close> returns the new builder together with its result, also when it raises;
  \<^item> the file system, numpy and the metric are functions of the record \<open>env\<close>.
\<close>

type_synonym path = string

text \<open>A decoded prediction array, as the bytes of its buffer (\<^verbatim>\<open>.data.tobytes()\<close>).\<close>

type_synonym array = "8 word list"

datatype error =
  ValueError | IndexError | KeyError | UnboundLocalError | MemoryError | OSError
  | AttributeError

text \<open>A number that \<^verbatim>\<open>isinstance(_, numbers.Integral)\<close> tells apart.\<close>

datatype pynum = PInt int | PFloat real

datatype loss = Fin real | PInf

instantiation loss :: linorder
begin

fun less_eq_loss :: "loss \<Rightarrow> loss \<Rightarrow> bool" where
  "less_eq_loss (Fin a) (Fin b) = (a \<le> b)"
| "less_eq_loss _ PInf = True"
| "less_eq_loss PInf (Fin b) = False"

definition less_loss :: "loss \<Rightarrow> loss \<Rightarrow> bool" where
  "less_loss x y = (x \<le> y \<and> \<not> y \<le> x)"

instance
proof
  fix x y z :: loss
  show "(x < y) = (x \<le> y \<and> \<not> y \<le> x)"
    by (simp add: less_loss_def)
  show "x \<le> x"
    by (cases x) simp_all
  show "x \<le> y \<Longrightarrow> y \<le> z \<Longrightarrow> x \<le> z"
    by (cases x; cases y; cases z) simp_all
  show "x \<le> y \<Longrightarrow> y \<le> x \<Longrightarrow> x = y"
    by (cases x; cases y) simp_all
  show "x \<le> y \<or> y \<le> x"
    by (cases x; cases y) auto
qed

end

text \<open>
  One entry of \<^verbatim>\<open>self.read_losses\<close> (lines 954-968). \<open>loaded\<close> is 0 (not loaded),
  1 (in memory), 2 (dropped again) or 3 (deleted from disk).
\<close>

record loss_record =
  ens_loss :: loss
  mtime_ens :: real
  mtime_test :: real
  seed :: int
  num_run :: int
  budget :: real
  disc_space_cost_mb :: "real option"
  loaded :: nat

text \<open>One entry of \<^verbatim>\<open>self.read_preds\<close>: the keys \<^verbatim>\<open>Y_ENSEMBLE\<close> and \<^verbatim>\<open>Y_TEST\<close>.\<close>

record preds =
  Y_ENSEMBLE :: "array option"
  Y_TEST :: "array option"

text \<open>The attributes of \<^verbatim>\<open>self\<close> that the embedded methods read or write.\<close>

record builder =
  ensemble_nbest :: pynum
  max_models_on_disc :: "pynum option"
  max_resident_models :: "int option"
  performance_range_threshold :: real
  self_seed :: int
  precision :: nat
  read_at_most :: int
  read_losses :: "(path \<times> loss_record) list"
  read_preds :: "(path \<times> preds) list"
  y_ens_files :: "path list"
  has_been_candidate :: "path set"
  last_hash :: "string option"
  unit_test :: bool
  y_true_ensemble :: "array option"

text \<open>
  What the methods take from outside the class. \<open>model_fn_re\<close> is
  \<^verbatim>\<open>self.model_fn_re.search\<close> followed by the \<^verbatim>\<open>int\<close>/\<^verbatim>\<open>float\<close> conversions of its
  three groups (seed, num_run, budget); \<open>np_load\<close> is opening and decoding a file at a
  precision; \<open>calculate_loss\<close> is the optimisation metric's loss of a prediction
  against the targets; \<open>dir_size_mb\<close> is the rounded size of a run directory;
  \<open>rmtree\<close> tells whether renaming and removing a run directory succeeds. The files
  that \<^verbatim>\<open>glob\<close> lists exist while a method runs, so \<open>getmtime\<close> is total; \<open>None\<close>
  stands for an exception of the call. \<open>fl\<close> rounds a real number to the float that
  an arithmetic operation returns for it, and \<open>float_sum\<close> is \<^verbatim>\<open>sum\<close> on floats.
\<close>

record env =
  model_fn_re :: "path \<Rightarrow> (int \<times> int \<times> real) option"
  getmtime :: "path \<Rightarrow> real"
  np_load :: "path \<Rightarrow> nat \<Rightarrow> array option"
  calculate_loss :: "array \<Rightarrow> array \<Rightarrow> loss option"
  dir_size_mb :: "int \<times> int \<times> real \<Rightarrow> real option"
  rmtree :: "int \<times> int \<times> real \<Rightarrow> bool"
  load_targets_ensemble :: "array option"
  glob_ens_files :: "path list"
  fl :: "real \<Rightarrow> real"
  float_sum :: "real list \<Rightarrow> real"

section \<open>Python helpers\<close>

text \<open>\<^verbatim>\<open>int(x)\<close> of a float: truncation towards zero.\<close>

definition py_int :: "real \<Rightarrow> int" where
  "py_int x = (if 0 \<le> x then \<lfloor>x\<rfloor> else \<lceil>x\<rceil>)"

text \<open>
  The subscript \<^verbatim>\<open>xs[i]\<close>: from the front for \<open>i\<close> from 0 on, from the back for a
  negative \<open>i\<close>, and IndexError outside the list.
\<close>

definition py_index :: "'a list \<Rightarrow> int \<Rightarrow> error + 'a" where
  "py_index xs i =
     (if 0 \<le> i \<and> i < int (length xs) then Inr (xs ! nat i)
      else if i < 0 \<and> - i \<le> int (length xs) then Inr (xs ! nat (int (length xs) + i))
      else Inl IndexError)"

text \<open>The slices \<^verbatim>\<open>xs[:n]\<close> and \<^verbatim>\<open>xs[n:]\<close>, negative \<open>n\<close> counting from the end.\<close>

definition py_upto :: "int \<Rightarrow> 'a list \<Rightarrow> 'a list" where
  "py_upto n xs = (if 0 \<le> n then take (nat n) xs else take (length xs - nat (- n)) xs)"

definition py_from :: "int \<Rightarrow> 'a list \<Rightarrow> 'a list" where
  "py_from n xs = (if 0 \<le> n then drop (nat n) xs else drop (length xs - nat (- n)) xs)"

text \<open>A \<^verbatim>\<open>for\<close> loop over a list whose body may raise: the first error ends it.\<close>

fun for_each :: "('a \<Rightarrow> 's \<Rightarrow> 's \<times> error option) \<Rightarrow> 'a list \<Rightarrow> 's \<Rightarrow> 's \<times> error option" where
  "for_each f [] s = (s, None)"
| "for_each f (x # xs) s =
     (case f x s of
        (s', None) \<Rightarrow> for_each f xs s'
      | (s', Some e) \<Rightarrow> (s', Some e))"

section \<open>Sorting the cached losses\<close>

text \<open>
  \<^verbatim>\<open>_get_list_of_sorted_preds\<close> (lines 1435-1462): the triples (key, loss, num_run) of
  the cache, sorted by the key (loss, num_run). Python's \<^verbatim>\<open>sorted\<close> is stable, as
  \<open>sort_key\<close> is.
\<close>

type_synonym pred_key = "path \<times> loss \<times> int"

abbreviation key_loss :: "pred_key \<Rightarrow> loss" where
  "key_loss x \<equiv> fst (snd x)"

abbreviation key_run :: "pred_key \<Rightarrow> int" where
  "key_run x \<equiv> snd (snd x)"

definition loss_items :: "(path \<times> loss_record) list \<Rightarrow> pred_key list" where
  "loss_items rl = map (\<lambda>(k, v). (k, ens_loss v, num_run v)) rl"

definition get_list_of_sorted_preds :: "builder \<Rightarrow> pred_key list" where
  "get_list_of_sorted_preds s =
     sort_key (\<lambda>x. (key_loss x, key_run x)) (loss_items (read_losses s))"

section \<open>Selecting the candidates: get_n_best_preds\<close>

text \<open>
  Lines 1048-1071. With a dummy record (num_run 1) in the sorted list, its first one
  gives the dummy loss; the records that are not strictly better and the records of
  num_run at most 1 are removed; when nothing is left, the list becomes the cache's
  records of this seed with num_run 1, in the cache's order. The second component is
  the variable \<^verbatim>\<open>dummy_loss\<close>, which is unbound when no dummy record exists.
\<close>

definition dummy_fallback :: "builder \<Rightarrow> pred_key list" where
  "dummy_fallback s =
     loss_items (filter (\<lambda>(k, v). seed v = self_seed s \<and> num_run v = 1) (read_losses s))"

definition remove_dummy :: "builder \<Rightarrow> pred_key list \<Rightarrow> pred_key list \<times> pred_key option" where
  "remove_dummy s sorted_keys =
     (case filter (\<lambda>x. key_run x = 1) sorted_keys of
        [] \<Rightarrow> (sorted_keys, None)
      | dummy_loss # _ \<Rightarrow>
          (let better = filter (\<lambda>x. key_loss x < key_loss dummy_loss) sorted_keys;
               no_dummy = filter (\<lambda>x. key_run x > 1) better
           in if no_dummy = [] then (dummy_fallback s, Some dummy_loss)
              else (no_dummy, Some dummy_loss)))"

text \<open>
  Lines 1074-1087: the number of models to keep, from \<^verbatim>\<open>ensemble_nbest\<close>. The
  product of the length and the fraction is a float product.
\<close>

definition keep_nbest_of :: "env \<Rightarrow> pynum \<Rightarrow> nat \<Rightarrow> int" where
  "keep_nbest_of e nbest n =
     (case nbest of
        PFloat f \<Rightarrow> max 1 (min (int n) (py_int (fl e (real n * f))))
      | PInt i \<Rightarrow> min i (int n))"

text \<open>
  Lines 1091-1127: the new value of \<^verbatim>\<open>self.max_resident_models\<close>.
  \<^verbatim>\<open>max\<close> of an empty sequence raises ValueError; \<^verbatim>\<open>np.cumsum\<close> adds the floats
  one after the other, its first entry being the first float; \<^verbatim>\<open>np.argmax\<close> of a
  boolean array is the index of its first True, and 0 when there is none.
\<close>

definition consumption_of :: "(path \<times> loss_record) list \<Rightarrow> (loss \<times> real) list" where
  "consumption_of rl =
     concat (map (\<lambda>(k, v). case disc_space_cost_mb v of None \<Rightarrow> [] | Some c \<Rightarrow> [(ens_loss v, c)]) rl)"

fun cumsum_from :: "env \<Rightarrow> real \<Rightarrow> real list \<Rightarrow> real list" where
  "cumsum_from e acc [] = []"
| "cumsum_from e acc (x # xs) = fl e (acc + x) # cumsum_from e (fl e (acc + x)) xs"

definition cumsum :: "env \<Rightarrow> real list \<Rightarrow> real list" where
  "cumsum e xs = (case xs of [] \<Rightarrow> [] | x # ys \<Rightarrow> x # cumsum_from e x ys)"

definition argmax_bool :: "bool list \<Rightarrow> nat" where
  "argmax_bool bs = (if True \<in> set bs then length (takeWhile Not bs) else 0)"

definition sorted_cum_consumption :: "env \<Rightarrow> (loss \<times> real) list \<Rightarrow> real \<Rightarrow> real list" where
  "sorted_cum_consumption e consumption max_consumption =
     map (\<lambda>x. fl e (x + max_consumption)) (cumsum e (map snd (sort consumption)))"

definition disc_budget :: "env \<Rightarrow> builder \<Rightarrow> error + int option" where
  "disc_budget e s =
     (case max_models_on_disc s of
        None \<Rightarrow> Inr (max_resident_models s)
      | Some (PInt m) \<Rightarrow> Inr (Some m)
      | Some (PFloat b) \<Rightarrow>
          (case consumption_of (read_losses s) of
             [] \<Rightarrow> Inl ValueError
           | c # cs \<Rightarrow>
               (let consumption = c # cs;
                    max_consumption = fold max (map snd cs) (snd c)
                in if fl e (float_sum e (map snd consumption) + max_consumption) > b
                   then (let max_models =
                               argmax_bool
                                 (map (\<lambda>x. x > b) (sorted_cum_consumption e consumption max_consumption))
                         in Inr (Some (max 1 (int max_models))))
                   else Inr None)))"

text \<open>Lines 1129-1135.\<close>

definition restrict_to_resident :: "int option \<Rightarrow> int \<Rightarrow> int" where
  "restrict_to_resident mrm keep_nbest =
     (case mrm of
        None \<Rightarrow> keep_nbest
      | Some m \<Rightarrow> if keep_nbest > m then m else keep_nbest)"

text \<open>
  Lines 1138-1155. \<open>range_cutoff\<close> is
  \<^verbatim>\<open>worst_loss -= (worst_loss - best_loss) * threshold\<close> for a positive threshold, a
  float subtraction, product and subtraction; \<open>None\<close> is NaN (infinity minus
  infinity), with which every comparison is false.
\<close>

definition range_cutoff :: "env \<Rightarrow> loss \<Rightarrow> loss \<Rightarrow> real \<Rightarrow> loss option" where
  "range_cutoff e worst_loss best_loss t =
     (case worst_loss of
        PInf \<Rightarrow> None
      | Fin w \<Rightarrow>
          (case best_loss of
             PInf \<Rightarrow> Some PInf
           | Fin b \<Rightarrow> Some (Fin (fl e (w - fl e (fl e (w - b) * t))))))"

definition gt_cutoff :: "loss \<Rightarrow> loss option \<Rightarrow> bool" where
  "gt_cutoff x c = (case c of None \<Rightarrow> False | Some w \<Rightarrow> x > w)"

definition ge_cutoff :: "loss \<Rightarrow> loss option \<Rightarrow> bool" where
  "ge_cutoff x c = (case c of None \<Rightarrow> False | Some w \<Rightarrow> x \<ge> w)"

text \<open>
  The loop \<^verbatim>\<open>for i in range(0, keep_nbest)\<close> from index \<open>i\<close> with \<open>n\<close> rounds left:
  the index of the \<^verbatim>\<open>break\<close>, or \<open>None\<close> when the loop runs out.
\<close>

fun range_scan :: "pred_key list \<Rightarrow> loss option \<Rightarrow> nat \<Rightarrow> nat \<Rightarrow> error + nat option" where
  "range_scan sorted_keys worst_loss i 0 = Inr None"
| "range_scan sorted_keys worst_loss i (Suc n) =
     (if i < length sorted_keys
      then (if ge_cutoff (key_loss (sorted_keys ! i)) worst_loss then Inr (Some i)
            else range_scan sorted_keys worst_loss (Suc i) n)
      else Inl IndexError)"

definition performance_range ::
  "env \<Rightarrow> real \<Rightarrow> pred_key list \<Rightarrow> pred_key option \<Rightarrow> int \<Rightarrow> error + int" where
  "performance_range e t sorted_keys dummy_loss keep_nbest =
     (if t > 0 then
        (case sorted_keys of
           [] \<Rightarrow> Inl IndexError
         | best # _ \<Rightarrow>
             (case dummy_loss of
                None \<Rightarrow> Inl UnboundLocalError
              | Some d \<Rightarrow>
                  (let worst_loss = range_cutoff e (key_loss d) (key_loss best) t
                   in case py_index sorted_keys (keep_nbest - 1) of
                        Inl e \<Rightarrow> Inl e
                      | Inr last_kept \<Rightarrow>
                          if gt_cutoff (key_loss last_kept) worst_loss
                          then (case range_scan sorted_keys worst_loss 0 (nat keep_nbest) of
                                  Inl e \<Rightarrow> Inl e
                                | Inr None \<Rightarrow> Inr keep_nbest
                                | Inr (Some i) \<Rightarrow> Inr (max 1 (int i)))
                          else Inr keep_nbest)))
      else Inr keep_nbest)"

text \<open>
  \<^verbatim>\<open>_read_np_fn\<close> (lines 1525-1543): the suffix decides how the file is opened, any
  other suffix raises ValueError; a failing open or decode is OSError here.
\<close>

definition read_np_fn :: "env \<Rightarrow> builder \<Rightarrow> path \<Rightarrow> error + array" where
  "read_np_fn e s p =
     (if suffix ''gz'' p \<or> suffix ''npy'' p
      then (case np_load e p (precision s) of None \<Rightarrow> Inl OSError | Some a \<Rightarrow> Inr a)
      else Inl ValueError)"

text \<open>Lines 1161-1173, the body of the loop over the keys that lost.\<close>

definition drop_model :: "path \<Rightarrow> builder \<Rightarrow> builder \<times> error option" where
  "drop_model k s =
     (let s1 = (case map_of (read_preds s) k of
                  None \<Rightarrow> s
                | Some p \<Rightarrow>
                    s\<lparr>read_preds :=
                        AList.update k (p\<lparr>Y_ENSEMBLE := None, Y_TEST := None\<rparr>) (read_preds s)\<rparr>)
      in case map_of (read_losses s1) k of
           None \<Rightarrow> (s1, Some KeyError)
         | Some v \<Rightarrow>
             if loaded v = 1
             then (s1\<lparr>read_losses := AList.update k (v\<lparr>loaded := 2\<rparr>) (read_losses s1)\<rparr>, None)
             else (s1, None))"

text \<open>
  Lines 1176-1186, the body of the loop over the winning keys. The right-hand side
  \<^verbatim>\<open>self._read_np_fn(k)\<close> is evaluated before the target \<^verbatim>\<open>self.read_preds[k]\<close>.
\<close>

definition load_model :: "env \<Rightarrow> path \<Rightarrow> builder \<Rightarrow> builder \<times> error option" where
  "load_model e k s =
     (if (case map_of (read_preds s) k of None \<Rightarrow> True | Some p \<Rightarrow> Y_ENSEMBLE p = None)
      then (case map_of (read_losses s) k of
              None \<Rightarrow> (s, Some KeyError)
            | Some v \<Rightarrow>
                if loaded v \<noteq> 3
                then (case read_np_fn e s k of
                        Inl err \<Rightarrow> (s, Some err)
                      | Inr a \<Rightarrow>
                          (case map_of (read_preds s) k of
                             None \<Rightarrow> (s, Some KeyError)
                           | Some p \<Rightarrow>
                               (s\<lparr>read_preds :=
                                    AList.update k (p\<lparr>Y_ENSEMBLE := Some a\<rparr>) (read_preds s),
                                  read_losses :=
                                    AList.update k (v\<lparr>loaded := 1\<rparr>) (read_losses s)\<rparr>, None)))
                else (s, None))
      else (s, None))"

text \<open>\<^verbatim>\<open>get_n_best_preds\<close> (lines 1029-1189).\<close>

definition get_n_best_preds :: "env \<Rightarrow> builder \<Rightarrow> builder \<times> (error + path list)" where
  "get_n_best_preds e s =
     (let (sorted_keys, dummy_loss) = remove_dummy s (get_list_of_sorted_preds s);
          keep_nbest = keep_nbest_of e (ensemble_nbest s) (length sorted_keys)
      in case disc_budget e s of
           Inl err \<Rightarrow> (s, Inl err)
         | Inr mrm \<Rightarrow>
             (let s1 = s\<lparr>max_resident_models := mrm\<rparr>;
                  keep_nbest = restrict_to_resident mrm keep_nbest
              in case performance_range e (performance_range_threshold s1) sorted_keys
                        dummy_loss keep_nbest of
                   Inl err \<Rightarrow> (s1, Inl err)
                 | Inr ensemble_n_best \<Rightarrow>
                     (let reduced_sorted_keys = map fst sorted_keys
                      in case for_each drop_model (py_from ensemble_n_best reduced_sorted_keys) s1 of
                           (s2, Some err) \<Rightarrow> (s2, Inl err)
                         | (s2, None) \<Rightarrow>
                             (case for_each (load_model e)
                                     (py_upto ensemble_n_best reduced_sorted_keys) s2 of
                                (s3, Some err) \<Rightarrow> (s3, Inl err)
                              | (s3, None) \<Rightarrow>
                                  (s3, Inr (py_upto ensemble_n_best reduced_sorted_keys))))))"

section \<open>Reading the prediction files: compute_loss_per_model\<close>

text \<open>\<^verbatim>\<open>get_disk_consumption\<close> (lines 871-891).\<close>

definition get_disk_consumption :: "env \<Rightarrow> path \<Rightarrow> error + real" where
  "get_disk_consumption e pred_path =
     (case model_fn_re e pred_path of
        None \<Rightarrow> Inl ValueError
      | Some run \<Rightarrow> (case dir_size_mb e run of None \<Rightarrow> Inl OSError | Some c \<Rightarrow> Inr c))"

text \<open>Lines 953-973: a file seen for the first time gets its two cache entries.\<close>

definition new_loss_record :: "int \<Rightarrow> int \<Rightarrow> real \<Rightarrow> loss_record" where
  "new_loss_record sd nr bd =
     \<lparr>ens_loss = PInf, mtime_ens = 0, mtime_test = 0, seed = sd, num_run = nr,
      budget = bd, disc_space_cost_mb = None, loaded = 0\<rparr>"

definition ensure_entries :: "path \<Rightarrow> int \<Rightarrow> int \<Rightarrow> real \<Rightarrow> builder \<Rightarrow> builder" where
  "ensure_entries fn sd nr bd s =
     s\<lparr>read_losses :=
         (case map_of (read_losses s) fn of
            None \<Rightarrow> AList.update fn (new_loss_record sd nr bd) (read_losses s)
          | Some v \<Rightarrow> read_losses s),
       read_preds :=
         (case map_of (read_preds s) fn of
            None \<Rightarrow> AList.update fn \<lparr>Y_ENSEMBLE = None, Y_TEST = None\<rparr> (read_preds s)
          | Some p \<Rightarrow> read_preds s)\<rparr>"

definition set_loss_record :: "path \<Rightarrow> loss_record \<Rightarrow> builder \<Rightarrow> builder" where
  "set_loss_record fn v s = s\<lparr>read_losses := AList.update fn v (read_losses s)\<rparr>"

text \<open>
  Lines 980-1019, the \<^verbatim>\<open>try\<close> block for a file whose time stamp changed, \<open>v\<close> being
  its cache entry. The Boolean tells whether \<^verbatim>\<open>n_read_files += 1\<close> was reached. An
  exception of \<^verbatim>\<open>get_disk_consumption\<close> comes after the time stamp and the load state
  were written, and the handler then only resets the loss.
\<close>

definition score_file :: "env \<Rightarrow> path \<Rightarrow> loss_record \<Rightarrow> builder \<Rightarrow> builder \<times> bool" where
  "score_file e fn v s =
     (case read_np_fn e s fn of
        Inl err \<Rightarrow> (set_loss_record fn (v\<lparr>ens_loss := PInf\<rparr>) s, False)
      | Inr y_ensemble \<Rightarrow>
          (case (case y_true_ensemble s of
                   None \<Rightarrow> None
                 | Some y \<Rightarrow> calculate_loss e y y_ensemble) of
             None \<Rightarrow> (set_loss_record fn (v\<lparr>ens_loss := PInf\<rparr>) s, False)
           | Some l \<Rightarrow>
               (let v1 = v\<lparr>ens_loss := l, mtime_ens := getmtime e fn, loaded := 2\<rparr>
                in case get_disk_consumption e fn of
                     Inl err \<Rightarrow> (set_loss_record fn (v1\<lparr>ens_loss := PInf\<rparr>) s, False)
                   | Inr c \<Rightarrow> (set_loss_record fn (v1\<lparr>disc_space_cost_mb := Some c\<rparr>) s, True))))"

text \<open>Lines 949-1019, the body of the loop for one file that the cap let through.\<close>

type_synonym pred_file = "path \<times> int \<times> int \<times> real"

definition read_file :: "env \<Rightarrow> pred_file \<Rightarrow> builder \<Rightarrow> builder \<times> bool" where
  "read_file e f s =
     (case f of (fn, sd, nr, bd) \<Rightarrow>
        if \<not> suffix ''.npy'' fn \<and> \<not> suffix ''.npy.gz'' fn then (s, False)
        else (let s1 = ensure_entries fn sd nr bd s
              in case map_of (read_losses s1) fn of
                   None \<Rightarrow> (s1, False)
                 | Some v \<Rightarrow>
                     if mtime_ens v = getmtime e fn then (s1, False)
                     else score_file e fn v s1))"

text \<open>
  Lines 939-1019, the loop: \<open>n\<close> is \<^verbatim>\<open>n_read_files\<close>. The result holds the builder,
  the final count and the files that the \<^verbatim>\<open>break\<close> left unvisited.
\<close>

fun read_loop :: "env \<Rightarrow> pred_file list \<Rightarrow> nat \<Rightarrow> builder \<Rightarrow> builder \<times> nat \<times> pred_file list" where
  "read_loop e [] n s = (s, n, [])"
| "read_loop e (f # fs) n s =
     (if read_at_most s \<noteq> 0 \<and> int n \<ge> read_at_most s then (s, n, f # fs)
      else (case read_file e f s of
              (s', counted) \<Rightarrow> read_loop e fs (if counted then Suc n else n) s'))"

text \<open>Lines 926-937: every file name must match the pattern.\<close>

fun parse_files :: "env \<Rightarrow> path list \<Rightarrow> pred_file list option" where
  "parse_files e [] = Some []"
| "parse_files e (fn # fns) =
     (case model_fn_re e fn of
        None \<Rightarrow> None
      | Some (sd, nr, bd) \<Rightarrow>
          (case parse_files e fns of None \<Rightarrow> None | Some fs \<Rightarrow> Some ((fn, sd, nr, bd) # fs)))"

text \<open>\<^verbatim>\<open>compute_loss_per_model\<close> (lines 893-1027).\<close>

definition compute_loss_per_model :: "env \<Rightarrow> builder \<Rightarrow> builder \<times> (error + bool)" where
  "compute_loss_per_model e s =
     (case (case y_true_ensemble s of None \<Rightarrow> load_targets_ensemble e | Some y \<Rightarrow> Some y) of
        None \<Rightarrow> (s, Inr False)
      | Some y \<Rightarrow>
          (let files = filter (\<lambda>fn. suffix ''.npy'' fn \<or> suffix ''.npy.gz'' fn) (glob_ens_files e);
               s1 = s\<lparr>y_true_ensemble := Some y, y_ens_files := files\<rparr>
           in if files = [] then (s1, Inr False)
              else (case parse_files e files of
                      None \<Rightarrow> (s1, Inl ValueError)
                    | Some to_read \<Rightarrow>
                        (case read_loop e (sort_key (\<lambda>f. fst (snd (snd f))) to_read) 0 s1 of
                           (s2, n_read_files, unread) \<Rightarrow> (s2, Inr True)))))"

section \<open>Fitting: fit_ensemble\<close>

text \<open>
  \<^verbatim>\<open>zlib.adler32\<close> of a byte string and \<^verbatim>\<open>str\<close> of a natural number, as the
  fingerprint of lines 1277-1280 uses them.
\<close>

definition adler32 :: "8 word list \<Rightarrow> nat" where
  "adler32 bs =
     (case fold (\<lambda>x (a, b). (let a' = (a + unat x) mod 65521 in (a', (b + a') mod 65521))) bs (1, 0) of
        (a, b) \<Rightarrow> b * 65536 + a)"

fun str_nat :: "nat \<Rightarrow> string" where
  "str_nat n =
     (if n < 10 then [''0123456789'' ! n]
      else str_nat (n div 10) @ [''0123456789'' ! (n mod 10)])"

declare str_nat.simps [simp del]

text \<open>
  A fitted \<^verbatim>\<open>EnsembleSelection\<close>: the chosen members and its validation loss. The
  class is not among the sources; its \<^verbatim>\<open>fit\<close> is the parameter \<open>ensemble_fit\<close>, and
  \<open>opt_metric\<close> tells how the lookup of the optimisation metric among
  \<^verbatim>\<open>self.metrics\<close> ends (\<open>None\<close>: found).
\<close>

record ensemble =
  members :: "(int \<times> int \<times> real) list"
  validation_loss :: loss

record fitter =
  ensemble_fit :: "array list \<Rightarrow> array option \<Rightarrow> (int \<times> int \<times> real) list \<Rightarrow> error + ensemble"
  opt_metric :: "error option"

text \<open>Lines 1267-1274: the two list comprehensions, each lookup raising KeyError.\<close>

fun lookup_all :: "('k \<times> 'v) list \<Rightarrow> 'k list \<Rightarrow> error + 'v list" where
  "lookup_all al [] = Inr []"
| "lookup_all al (k # ks) =
     (case map_of al k of
        None \<Rightarrow> Inl KeyError
      | Some v \<Rightarrow> (case lookup_all al ks of Inl err \<Rightarrow> Inl err | Inr vs \<Rightarrow> Inr (v # vs)))"

text \<open>
  Lines 1277-1280: \<^verbatim>\<open>None.data\<close> raises AttributeError for a prediction that is not
  loaded.
\<close>

fun current_hash :: "array option list \<Rightarrow> error + string" where
  "current_hash [] = Inr []"
| "current_hash (None # ps) = Inl AttributeError"
| "current_hash (Some a # ps) =
     (case current_hash ps of Inl err \<Rightarrow> Inl err | Inr h \<Rightarrow> Inr (str_nat (adler32 a) @ h))"

text \<open>
  \<^verbatim>\<open>fit_ensemble\<close> (lines 1249-1333). \<^verbatim>\<open>self.validation_performance_\<close> is only
  logged and compared with itself, and is left out of the builder.
\<close>

definition fit_ensemble ::
  "fitter \<Rightarrow> builder \<Rightarrow> path list \<Rightarrow> builder \<times> (error + ensemble option)" where
  "fit_ensemble ft s selected_keys =
     (if unit_test s then (s, Inl MemoryError)
      else (case lookup_all (read_preds s) selected_keys of
              Inl err \<Rightarrow> (s, Inl err)
            | Inr ps \<Rightarrow>
                (case lookup_all (read_losses s) selected_keys of
                   Inl err \<Rightarrow> (s, Inl err)
                 | Inr vs \<Rightarrow>
                     (let predictions_train = map Y_ENSEMBLE ps;
                          include_num_runs = map (\<lambda>v. (seed v, num_run v, budget v)) vs
                      in case current_hash predictions_train of
                           Inl err \<Rightarrow> (s, Inl err)
                         | Inr h \<Rightarrow>
                             if last_hash s = Some h then (s, Inr None)
                             else (let s1 = s\<lparr>last_hash := Some h\<rparr>
                                   in case opt_metric ft of
                                        Some err \<Rightarrow> (s1, Inl err)
                                      | None \<Rightarrow>
                                          (case ensemble_fit ft (map the predictions_train)
                                                  (y_true_ensemble s1) include_num_runs of
                                             Inl ValueError \<Rightarrow> (s1, Inr None)
                                           | Inl IndexError \<Rightarrow> (s1, Inr None)
                                           | Inl err \<Rightarrow> (s1, Inl err)
                                           | Inr ens \<Rightarrow> (s1, Inr (Some ens))))))))"

section \<open>Reclaiming disk space: _delete_excess_models\<close>

text \<open>
  Lines 1490-1523, the body of the loop for one file of \<^verbatim>\<open>self.y_ens_files\<close>. The
  second component of the state lists the files whose run directory was renamed and
  removed. A KeyError of \<^verbatim>\<open>self.read_losses[pred_path]\<close> comes after the removal and is
  caught with every other exception of the \<^verbatim>\<open>try\<close> block.
\<close>

definition delete_model ::
  "env \<Rightarrow> path list \<Rightarrow> path \<Rightarrow> builder \<times> path list \<Rightarrow> (builder \<times> path list) \<times> error option" where
  "delete_model e candidates pred_path st =
     (case st of (s, removed) \<Rightarrow>
        if pred_path \<in> set candidates then (st, None)
        else if pred_path \<in> has_been_candidate s then (st, None)
        else (case model_fn_re e pred_path of
                None \<Rightarrow> (st, Some ValueError)
              | Some (sd, nr, bd) \<Rightarrow>
                  if nr = 1 then (st, None)
                  else if rmtree e (sd, nr, bd)
                  then (case map_of (read_losses s) pred_path of
                          None \<Rightarrow> ((s, removed @ [pred_path]), None)
                        | Some v \<Rightarrow>
                            ((set_loss_record pred_path
                                (v\<lparr>disc_space_cost_mb := None, loaded := 3, ens_loss := PInf\<rparr>) s,
                              removed @ [pred_path]), None))
                  else (st, None)))"

text \<open>
  \<^verbatim>\<open>_delete_excess_models\<close> (lines 1464-1523). The parameter \<^verbatim>\<open>selected_keys\<close> is
  not used by the method.
\<close>

definition delete_excess_models ::
  "env \<Rightarrow> builder \<Rightarrow> path list \<Rightarrow> (builder \<times> path list) \<times> error option" where
  "delete_excess_models e s selected_keys =
     (case max_resident_models s of
        None \<Rightarrow> ((s, []), None)
      | Some m \<Rightarrow>
          (let sorted_keys = map fst (get_list_of_sorted_preds s)
           in if int (length sorted_keys) \<le> m then ((s, []), None)
              else (let candidates = py_upto m sorted_keys
                    in for_each (delete_model e candidates) (y_ens_files s) (s, []))))"

section \<open>The retry loop of run\<close>

text \<open>
  Lines 684-721: what \<^verbatim>\<open>run\<close> does with a builder whose resource-limited \<^verbatim>\<open>main\<close> hit the
  memory limit. The Boolean is True when \<^verbatim>\<open>run\<close> returns (with the empty history and
  the new \<^verbatim>\<open>ensemble_nbest\<close>) and False when the \<^verbatim>\<open>while\<close> loop goes on.
  \<^verbatim>\<open>n / 2\<close> is the true division, and \<^verbatim>\<open>int\<close> truncates its result.
\<close>

definition memory_limit_step :: "builder \<Rightarrow> builder \<times> bool" where
  "memory_limit_step s =
     (case ensemble_nbest s of
        PInt n \<Rightarrow>
          if n \<le> 1
          then (if read_at_most s = 1 then (s\<lparr>ensemble_nbest := PInt 0\<rparr>, False)
                else (s\<lparr>read_at_most := 1\<rparr>, False))
          else (s\<lparr>ensemble_nbest := PInt (max 1 (py_int (real_of_int n / 2)))\<rparr>, True)
      | PFloat f \<Rightarrow> (s\<lparr>ensemble_nbest := PInt (py_int (f / 2))\<rparr>, True))"

text \<open>
  The \<^verbatim>\<open>while True\<close> loop of \<^verbatim>\<open>run\<close> (lines 657-723) against what each round meets:
  the time is up (either \<^verbatim>\<open>break\<close>), \<^verbatim>\<open>main\<close> died of the memory limit, or \<^verbatim>\<open>main\<close>
  ended otherwise with a result. \<open>None\<close> is a loop still running when the listed
  rounds are over.
\<close>

datatype 'r attempt = TimeUp | MemoryLimit | Exit 'r

datatype 'r run_result = MainResult 'r | NoResult pynum

fun run_loop :: "'r attempt list \<Rightarrow> builder \<Rightarrow> (builder \<times> 'r run_result) option" where
  "run_loop [] s = None"
| "run_loop (TimeUp # rounds) s = Some (s, NoResult (ensemble_nbest s))"
| "run_loop (Exit r # rounds) s = Some (s, MainResult r)"
| "run_loop (MemoryLimit # rounds) s =
     (case memory_limit_step s of
        (s', True) \<Rightarrow> Some (s', NoResult (ensemble_nbest s'))
      | (s', False) \<Rightarrow> run_loop rounds s')"

section \<open>Auxiliary notions for the proofs\<close>

text \<open>The keys of the two caches.\<close>

abbreviation loss_keys :: "builder \<Rightarrow> path set" where
  "loss_keys s \<equiv> dom (map_of (read_losses s))"

abbreviation pred_keys :: "builder \<Rightarrow> path set" where
  "pred_keys s \<equiv> dom (map_of (read_preds s))"

text \<open>What the two loops at the end of \<^verbatim>\<open>get_n_best_preds\<close> leave unchanged.\<close>

definition keys_inv :: "builder \<Rightarrow> builder \<Rightarrow> bool" where
  "keys_inv s s' \<longleftrightarrow>
     max_resident_models s' = max_resident_models s \<and> precision s' = precision s
     \<and> loss_keys s' = loss_keys s \<and> pred_keys s' = pred_keys s"

text \<open>
  The candidate list after lines 1048-1071 and the kept count after lines 1074-1155,
  as \<^verbatim>\<open>get_n_best_preds\<close> computes them.
\<close>

definition candidate_keys :: "builder \<Rightarrow> pred_key list" where
  "candidate_keys s = fst (remove_dummy s (get_list_of_sorted_preds s))"

definition kept_count :: "env \<Rightarrow> builder \<Rightarrow> error + int" where
  "kept_count e s =
     (case disc_budget e s of
        Inl err \<Rightarrow> Inl err
      | Inr mrm \<Rightarrow>
          performance_range e (performance_range_threshold s) (candidate_keys s)
            (snd (remove_dummy s (get_list_of_sorted_preds s)))
            (restrict_to_resident mrm
               (keep_nbest_of e (ensemble_nbest s) (length (candidate_keys s)))))"

text \<open>
  Two properties of rounding to the nearest binary64 float: it is monotone, and it
  leaves a number \<open>k / 2 ^ j\<close> with \<open>\<bar>k\<bar> \<le> 2 ^ 53\<close> as it is (such a number is a float,
  the integers up to \<open>2 ^ 53\<close> among them).
\<close>

definition nearest_rounding :: "env \<Rightarrow> bool" where
  "nearest_rounding e \<longleftrightarrow>
     mono (fl e)
     \<and> (\<forall>k j. \<bar>k\<bar> \<le> 2 ^ 53 \<and> j \<le> 1000 \<longrightarrow>
            fl e (real_of_int k / 2 ^ j) = real_of_int k / 2 ^ j)"






text \<open>
  What the constructor (lines 478-496) and \<^verbatim>\<open>run\<close> guarantee of the configuration:
  an integer \<^verbatim>\<open>ensemble_nbest\<close> is not negative, neither is an integer
  \<^verbatim>\<open>max_models_on_disc\<close>, and \<^verbatim>\<open>max_resident_models\<close> stays \<^verbatim>\<open>None\<close> while
  \<^verbatim>\<open>max_models_on_disc\<close> is \<^verbatim>\<open>None\<close>.
\<close>

definition config_ok :: "builder \<Rightarrow> bool" where
  "config_ok s \<longleftrightarrow>
     (case ensemble_nbest s of PInt i \<Rightarrow> 0 \<le> i | PFloat f \<Rightarrow> True)
     \<and> (case max_models_on_disc s of
           None \<Rightarrow> max_resident_models s = None
         | Some (PInt m) \<Rightarrow> 0 \<le> m
         | Some (PFloat b) \<Rightarrow> True)"

text \<open>Two builders whose caches hold the same losses and run ids, key by key.\<close>

definition same_losses :: "builder \<Rightarrow> builder \<Rightarrow> bool" where
  "same_losses s t \<longleftrightarrow> loss_items (read_losses t) = loss_items (read_losses s)"

text \<open>
  What \<^verbatim>\<open>_delete_excess_models\<close> asks of a file before it removes its run
  directory, and the invariant of its loop.
\<close>

definition deletable :: "env \<Rightarrow> path list \<Rightarrow> path \<Rightarrow> bool" where
  "deletable e candidates p \<longleftrightarrow>
     p \<notin> set candidates \<and> (case model_fn_re e p of None \<Rightarrow> False | Some (sd, nr, bd) \<Rightarrow> nr \<noteq> 1)"

definition removed_ok :: "env \<Rightarrow> path list \<Rightarrow> builder \<times> path list \<Rightarrow> bool" where
  "removed_ok e candidates st \<longleftrightarrow> (\<forall>q\<in>set (snd st). deletable e candidates q)"

section \<open>Example caches\<close>

text \<open>
  An environment in which every file can be read and the arithmetic is exact, and a
  builder with three cached records of losses 0.5, 0.3, 0.3 and run ids 5, 2, 7, each
  of 4 MB on disk.
\<close>

definition ex_env :: env where
  "ex_env =
     \<lparr>model_fn_re = (\<lambda>p. None), getmtime = (\<lambda>p. 1), np_load = (\<lambda>p n. Some [1, 2]),
      calculate_loss = (\<lambda>y p. Some (Fin 1)), dir_size_mb = (\<lambda>t. Some 4),
      rmtree = (\<lambda>t. True), load_targets_ensemble = Some [], glob_ens_files = [],
      fl = (\<lambda>x. x), float_sum = sum_list\<rparr>"

definition ex_record :: "loss \<Rightarrow> int \<Rightarrow> loss_record" where
  "ex_record l r =
     \<lparr>ens_loss = l, mtime_ens = 1, mtime_test = 0, seed = 1, num_run = r, budget = 5,
      disc_space_cost_mb = Some 4, loaded = 2\<rparr>"

definition ex_builder :: builder where
  "ex_builder =
     \<lparr>ensemble_nbest = PInt 2, max_models_on_disc = None, max_resident_models = None,
      performance_range_threshold = 0, self_seed = 1, precision = 32, read_at_most = 5,
      read_losses = [(''a5.npy'', ex_record (Fin (1 / 2)) 5), (''a2.npy'', ex_record (Fin (3 / 10)) 2),
                     (''a7.npy'', ex_record (Fin (3 / 10)) 7)],
      read_preds = [(''a5.npy'', \<lparr>Y_ENSEMBLE = None, Y_TEST = None\<rparr>),
                    (''a2.npy'', \<lparr>Y_ENSEMBLE = None, Y_TEST = None\<rparr>),
                    (''a7.npy'', \<lparr>Y_ENSEMBLE = None, Y_TEST = None\<rparr>)],
      y_ens_files = [''a5.npy'', ''a2.npy'', ''a7.npy''], has_been_candidate = {},
      last_hash = None, unit_test = False, y_true_ensemble = Some []\<rparr>"

text \<open>
  A cache of dummy records only: two of this seed with losses 4 and 5, and one of
  another seed with loss 2.
\<close>

definition ex_dummies :: builder where
  "ex_dummies =
     ex_builder\<lparr>performance_range_threshold := 1 / 2,
       read_losses := [(''b4.npy'', ex_record (Fin 4) 1), (''b5.npy'', ex_record (Fin 5) 1),
                       (''b2.npy'', (ex_record (Fin 2) 1)\<lparr>seed := 2\<rparr>)],
       read_preds := [(''b4.npy'', \<lparr>Y_ENSEMBLE = None, Y_TEST = None\<rparr>),
                      (''b5.npy'', \<lparr>Y_ENSEMBLE = None, Y_TEST = None\<rparr>),
                      (''b2.npy'', \<lparr>Y_ENSEMBLE = None, Y_TEST = None\<rparr>)]\<rparr>"

text \<open>A fitter that always succeeds, and the example builder with two loaded predictions.\<close>

definition ex_fitter :: fitter where
  "ex_fitter =
     \<lparr>ensemble_fit = (\<lambda>ps y runs. Inr \<lparr>members = runs, validation_loss = Fin (1 / 4)\<rparr>),
      opt_metric = None\<rparr>"

definition ex_loaded :: builder where
  "ex_loaded =
     ex_builder\<lparr>read_preds :=
       [(''a5.npy'', \<lparr>Y_ENSEMBLE = None, Y_TEST = None\<rparr>),
        (''a2.npy'', \<lparr>Y_ENSEMBLE = Some [1, 2], Y_TEST = None\<rparr>),
        (''a7.npy'', \<lparr>Y_ENSEMBLE = Some [3], Y_TEST = None\<rparr>)]\<rparr>"



text \<open>
  The example with a limit of one model on disk: an environment that parses the three
  file names, and the builder after \<^verbatim>\<open>get_n_best_preds\<close>.
\<close>

definition ex_parsing :: env where
  "ex_parsing =
     ex_env\<lparr>model_fn_re :=
       map_of [(''a5.npy'', (1, 5, 5)), (''a2.npy'', (1, 2, 5)), (''a7.npy'', (1, 7, 5))]\<rparr>"

definition ex_limited :: builder where
  "ex_limited = ex_builder\<lparr>max_models_on_disc := Some (PInt 1)\<rparr>"

definition ex_selected :: builder where
  "ex_selected =
     ex_limited\<lparr>max_resident_models := Some 1,
       read_losses := [(''a5.npy'', ex_record (Fin (1 / 2)) 5),
                       (''a2.npy'', (ex_record (Fin (3 / 10)) 2)\<lparr>loaded := 1\<rparr>),
                       (''a7.npy'', ex_record (Fin (3 / 10)) 7)],
       read_preds := [(''a5.npy'', \<lparr>Y_ENSEMBLE = None, Y_TEST = None\<rparr>),
                      (''a2.npy'', \<lparr>Y_ENSEMBLE = Some [1, 2], Y_TEST = None\<rparr>),
                      (''a7.npy'', \<lparr>Y_ENSEMBLE = None, Y_TEST = None\<rparr>)]\<rparr>"

text \<open>
  A cache holding one dummy record, in a builder whose \<^verbatim>\<open>ensemble_nbest\<close> the
  memory limit has brought down to 0 (line 704).
\<close>

definition ex_reclaim_only :: builder where
  "ex_reclaim_only =
     ex_builder\<lparr>ensemble_nbest := PInt 0,
       read_losses := [(''d1.npy'', ex_record (Fin 1) 1)],
       read_preds := [(''d1.npy'', \<lparr>Y_ENSEMBLE = None, Y_TEST = None\<rparr>)]\<rparr>"

text \<open>
  The example cache in another dict order: run 7, run 5, run 2.
\<close>

definition ex_ties :: builder where
  "ex_ties =
     ex_builder\<lparr>read_losses :=
       [(''a7.npy'', ex_record (Fin (3 / 10)) 7), (''a5.npy'', ex_record (Fin (1 / 2)) 5),
        (''a2.npy'', ex_record (Fin (3 / 10)) 2)]\<rparr>"

text \<open>
  A float budget of 8.5 MB and four records: the first of the dict has the worst loss
  and costs 5 MB, the three others cost 1 MB each.
\<close>

definition ex_budget :: builder where
  "ex_budget =
     ex_builder\<lparr>max_models_on_disc := Some (PFloat (17 / 2)),
       read_losses :=
         [(''c5.npy'', (ex_record (Fin (9 / 10)) 5)\<lparr>disc_space_cost_mb := Some 5\<rparr>),
          (''c2.npy'', (ex_record (Fin (1 / 10)) 2)\<lparr>disc_space_cost_mb := Some 1\<rparr>),
          (''c7.npy'', (ex_record (Fin (2 / 10)) 7)\<lparr>disc_space_cost_mb := Some 1\<rparr>),
          (''c3.npy'', (ex_record (Fin (3 / 10)) 3)\<lparr>disc_space_cost_mb := Some 1\<rparr>)]\<rparr>"


section \<open>Properties\<close>

lemma less_loss_simps [simp]:
  "(Fin a < Fin b) = (a < b)"
  "Fin a < PInf"
  "\<not> PInf < x"
  by (cases x; auto simp: less_loss_def)+

lemma less_eq_loss_simps [simp]:
  "(Fin a \<le> Fin b) = (a \<le> b)"
  "x \<le> PInf"
  "(PInf \<le> x) = (x = PInf)"
  by (cases x; simp)+

subsection \<open>The loops of get_n_best_preds\<close>

lemma for_each_inv:
  assumes "\<And>x s s' r. f x s = (s', r) \<Longrightarrow> P s \<Longrightarrow> P s'"
    and "for_each f xs s = (s', r)" and "P s"
  shows "P s'"
  using assms(2,3)
proof (induction xs arbitrary: s)
  case Nil
  then show ?case by simp
next
  case (Cons x xs)
  obtain s1 r1 where f: "f x s = (s1, r1)" by (cases "f x s")
  with assms(1) Cons.prems(2) have P1: "P s1" by blast
  show ?case
  proof (cases r1)
    case None
    with f Cons.prems(1) have "for_each f xs s1 = (s', r)" by simp
    with Cons.IH P1 show ?thesis by blast
  next
    case (Some a)
    with f Cons.prems(1) have "s' = s1" by simp
    with P1 show ?thesis by simp
  qed
qed

lemma dom_update_present:
  "map_of al k = Some v \<Longrightarrow> dom (map_of (AList.update k v' al)) = dom (map_of al)"
  by (simp add: update_conv' insert_absorb domI)

lemma drop_model_frame:
  "drop_model k s = (s', r) \<Longrightarrow> keys_inv s s'"
  unfolding drop_model_def keys_inv_def Let_def
  by (cases "map_of (read_preds s) k"; cases "map_of (read_losses s) k")
     (auto simp: update_conv' split: if_splits)

lemma load_model_frame:
  "load_model e k s = (s', r) \<Longrightarrow> keys_inv s s'"
  unfolding load_model_def keys_inv_def
  by (cases "map_of (read_preds s) k"; cases "map_of (read_losses s) k"; cases "read_np_fn e s k")
     (auto simp: update_conv' split: if_splits)

lemma drop_model_ok:
  "k \<in> loss_keys s \<Longrightarrow> snd (drop_model k s) = None"
  unfolding drop_model_def Let_def
  by (cases "map_of (read_preds s) k") (auto split: if_splits)

lemma read_np_fn_cong:
  "precision s' = precision s \<Longrightarrow> read_np_fn e s' k = read_np_fn e s k"
  by (simp add: read_np_fn_def)

lemma load_model_ok:
  "k \<in> loss_keys s \<Longrightarrow> k \<in> pred_keys s \<Longrightarrow>
   read_np_fn e s k = Inr a \<Longrightarrow> snd (load_model e k s) = None"
  unfolding load_model_def by auto

lemma keys_inv_refl: "keys_inv s s"
  by (simp add: keys_inv_def)

lemma keys_inv_trans: "keys_inv s t \<Longrightarrow> keys_inv t u \<Longrightarrow> keys_inv s u"
  by (simp add: keys_inv_def)

lemma drop_loop_frame:
  assumes "for_each drop_model ks s = (s', r)"
  shows "keys_inv s s'"
proof -
  have step: "\<And>x t t' r'. drop_model x t = (t', r') \<Longrightarrow> keys_inv s t \<Longrightarrow> keys_inv s t'"
    using drop_model_frame keys_inv_trans by blast
  show ?thesis
    by (rule for_each_inv [where f = drop_model and P = "keys_inv s", OF step assms keys_inv_refl])
qed

lemma load_loop_frame:
  assumes "for_each (load_model e) ks s = (s', r)"
  shows "keys_inv s s'"
proof -
  have step: "\<And>x t t' r'. load_model e x t = (t', r') \<Longrightarrow> keys_inv s t \<Longrightarrow> keys_inv s t'"
    using load_model_frame keys_inv_trans by blast
  show ?thesis
    by (rule for_each_inv [where f = "load_model e" and P = "keys_inv s", OF step assms keys_inv_refl])
qed

lemma drop_loop_ok:
  "set ks \<subseteq> loss_keys s \<Longrightarrow> snd (for_each drop_model ks s) = None"
proof (induction ks arbitrary: s)
  case Nil
  then show ?case by simp
next
  case (Cons k ks)
  obtain s1 r1 where d: "drop_model k s = (s1, r1)" by (cases "drop_model k s")
  from Cons.prems have "snd (drop_model k s) = None" by (simp add: drop_model_ok)
  with d have r1: "r1 = None" by simp
  from drop_model_frame [OF d] Cons.prems have "set ks \<subseteq> loss_keys s1"
    by (simp add: keys_inv_def)
  then have "snd (for_each drop_model ks s1) = None" by (rule Cons.IH)
  with d r1 show ?case by simp
qed

lemma load_loop_ok:
  "set ks \<subseteq> loss_keys s \<Longrightarrow> set ks \<subseteq> pred_keys s \<Longrightarrow>
   \<forall>k\<in>set ks. \<exists>a. read_np_fn e s k = Inr a \<Longrightarrow> snd (for_each (load_model e) ks s) = None"
proof (induction ks arbitrary: s)
  case Nil
  then show ?case by simp
next
  case (Cons k ks)
  obtain s1 r1 where d: "load_model e k s = (s1, r1)" by (cases "load_model e k s")
  from Cons.prems obtain a where "read_np_fn e s k = Inr a" by auto
  with Cons.prems have "snd (load_model e k s) = None" by (simp add: load_model_ok)
  with d have r1: "r1 = None" by simp
  note fr = load_model_frame [OF d, unfolded keys_inv_def]
  from fr Cons.prems have 1: "set ks \<subseteq> loss_keys s1" by simp
  from fr Cons.prems have 2: "set ks \<subseteq> pred_keys s1" by simp
  from fr have "\<And>k. read_np_fn e s1 k = read_np_fn e s k"
    by (simp add: read_np_fn_def)
  with Cons.prems have 3: "\<forall>k\<in>set ks. \<exists>a. read_np_fn e s1 k = Inr a"
    by simp
  from 1 2 3 have "snd (for_each (load_model e) ks s1) = None" by (rule Cons.IH)
  with d r1 show ?case by simp
qed

lemma get_n_best_preds_unfold:
  assumes rd: "remove_dummy s (get_list_of_sorted_preds s) = (sk, dl)"
    and db: "disc_budget e s = Inr mrm"
    and pr: "performance_range e (performance_range_threshold s) sk dl
               (restrict_to_resident mrm (keep_nbest_of e (ensemble_nbest s) (length sk))) = Inr n"
    and dr: "for_each drop_model (py_from n (map fst sk)) (s\<lparr>max_resident_models := mrm\<rparr>) = (s2, r2)"
    and ld: "for_each (load_model e) (py_upto n (map fst sk)) s2 = (s3, r3)"
  shows "get_n_best_preds e s =
           (case r2 of Some err \<Rightarrow> (s2, Inl err)
            | None \<Rightarrow> (case r3 of Some err \<Rightarrow> (s3, Inl err)
                        | None \<Rightarrow> (s3, Inr (py_upto n (map fst sk)))))"
  unfolding get_n_best_preds_def by (simp add: rd db pr dr ld Let_def)

lemma get_n_best_preds_result:
  assumes "get_n_best_preds e s = (s', Inr keys)"
  shows "\<exists>mrm n. disc_budget e s = Inr mrm \<and> kept_count e s = Inr n
           \<and> keys = py_upto n (map fst (candidate_keys s)) \<and> max_resident_models s' = mrm"
proof -
  obtain sk dl where rd: "remove_dummy s (get_list_of_sorted_preds s) = (sk, dl)"
    by (cases "remove_dummy s (get_list_of_sorted_preds s)")
  from assms rd obtain mrm where db: "disc_budget e s = Inr mrm"
    by (cases "disc_budget e s") (simp_all add: get_n_best_preds_def)
  let ?s1 = "s\<lparr>max_resident_models := mrm\<rparr>"
  let ?k = "restrict_to_resident mrm (keep_nbest_of e (ensemble_nbest s) (length sk))"
  from assms rd db obtain n where pr: "performance_range e (performance_range_threshold s) sk dl ?k = Inr n"
    by (cases "performance_range e (performance_range_threshold s) sk dl ?k")
       (simp_all add: get_n_best_preds_def Let_def)
  obtain s2 r2 where dr: "for_each drop_model (py_from n (map fst sk)) ?s1 = (s2, r2)"
    by (cases "for_each drop_model (py_from n (map fst sk)) ?s1")
  obtain s3 r3 where ld: "for_each (load_model e) (py_upto n (map fst sk)) s2 = (s3, r3)"
    by (cases "for_each (load_model e) (py_upto n (map fst sk)) s2")
  from assms get_n_best_preds_unfold [OF rd db pr dr ld]
  have "s' = s3 \<and> keys = py_upto n (map fst sk)"
    by (cases r2; cases r3) simp_all
  moreover from drop_loop_frame [OF dr] load_loop_frame [OF ld]
  have "max_resident_models s3 = mrm" by (simp add: keys_inv_def)
  ultimately show ?thesis using rd db pr
    by (simp add: kept_count_def candidate_keys_def)
qed

lemma get_n_best_preds_mrm:
  assumes db: "disc_budget e s = Inr mrm"
  shows "max_resident_models (fst (get_n_best_preds e s)) = mrm"
proof -
  obtain sk dl where rd: "remove_dummy s (get_list_of_sorted_preds s) = (sk, dl)"
    by (cases "remove_dummy s (get_list_of_sorted_preds s)")
  let ?s1 = "s\<lparr>max_resident_models := mrm\<rparr>"
  let ?k = "restrict_to_resident mrm (keep_nbest_of e (ensemble_nbest s) (length sk))"
  show ?thesis
  proof (cases "performance_range e (performance_range_threshold s) sk dl ?k")
    case (Inl err)
    with rd db show ?thesis by (simp add: get_n_best_preds_def Let_def)
  next
    case (Inr n)
    obtain s2 r2 where dr: "for_each drop_model (py_from n (map fst sk)) ?s1 = (s2, r2)"
      by (cases "for_each drop_model (py_from n (map fst sk)) ?s1")
    obtain s3 r3 where ld: "for_each (load_model e) (py_upto n (map fst sk)) s2 = (s3, r3)"
      by (cases "for_each (load_model e) (py_upto n (map fst sk)) s2")
    from drop_loop_frame [OF dr] have 2: "max_resident_models s2 = mrm"
      by (simp add: keys_inv_def)
    with load_loop_frame [OF ld] have 3: "max_resident_models s3 = mrm"
      by (simp add: keys_inv_def)
    from get_n_best_preds_unfold [OF rd db Inr dr ld] 2 3 show ?thesis
      by (cases r2; cases r3) simp_all
  qed
qed

lemma get_n_best_preds_error:
  assumes "kept_count e s = Inl err"
  shows "snd (get_n_best_preds e s) = Inl err"
proof -
  obtain sk dl where rd: "remove_dummy s (get_list_of_sorted_preds s) = (sk, dl)"
    by (cases "remove_dummy s (get_list_of_sorted_preds s)")
  show ?thesis
  proof (cases "disc_budget e s")
    case (Inl a)
    with assms rd show ?thesis by (simp add: get_n_best_preds_def kept_count_def)
  next
    case (Inr mrm)
    with assms rd show ?thesis
      by (simp add: get_n_best_preds_def kept_count_def candidate_keys_def Let_def)
  qed
qed

lemma loss_keys_candidates:
  "fst ` set (candidate_keys s) \<subseteq> loss_keys s"
proof -
  have a: "fst ` set (loss_items rl) = fst ` set rl" for rl
    by (force simp: loss_items_def)
  have b: "fst ` set (get_list_of_sorted_preds s) = fst ` set (read_losses s)"
    by (simp add: get_list_of_sorted_preds_def a)
  have c: "fst ` set (dummy_fallback s) \<subseteq> fst ` set (read_losses s)"
    by (auto simp: dummy_fallback_def a)
  have "set (candidate_keys s) \<subseteq> set (get_list_of_sorted_preds s) \<union> set (dummy_fallback s)"
    by (auto simp: candidate_keys_def remove_dummy_def Let_def split: list.splits if_splits)
  then have "fst ` set (candidate_keys s) \<subseteq> fst ` set (read_losses s)"
    using b c by blast
  then show ?thesis by (simp add: dom_map_of_conv_image_fst)
qed

lemma get_n_best_preds_returns:
  assumes kc: "kept_count e s = Inr n"
    and preds: "loss_keys s \<subseteq> pred_keys s"
    and readable: "\<forall>k\<in>set (py_upto n (map fst (candidate_keys s))). \<exists>a. read_np_fn e s k = Inr a"
  shows "snd (get_n_best_preds e s) = Inr (py_upto n (map fst (candidate_keys s)))"
proof -
  obtain sk dl where rd: "remove_dummy s (get_list_of_sorted_preds s) = (sk, dl)"
    by (cases "remove_dummy s (get_list_of_sorted_preds s)")
  then have sk: "candidate_keys s = sk" by (simp add: candidate_keys_def)
  from kc obtain mrm where db: "disc_budget e s = Inr mrm"
    by (cases "disc_budget e s") (simp_all add: kept_count_def)
  let ?s1 = "s\<lparr>max_resident_models := mrm\<rparr>"
  from kc rd db have pr: "performance_range e (performance_range_threshold s) sk dl
       (restrict_to_resident mrm (keep_nbest_of e (ensemble_nbest s) (length sk))) = Inr n"
    by (simp add: kept_count_def candidate_keys_def)
  obtain s2 r2 where dr: "for_each drop_model (py_from n (map fst sk)) ?s1 = (s2, r2)"
    by (cases "for_each drop_model (py_from n (map fst sk)) ?s1")
  obtain s3 r3 where ld: "for_each (load_model e) (py_upto n (map fst sk)) s2 = (s3, r3)"
    by (cases "for_each (load_model e) (py_upto n (map fst sk)) s2")
  have all: "set (map fst sk) \<subseteq> loss_keys s"
    using loss_keys_candidates [of s] sk by simp
  have "set (py_from n (map fst sk)) \<subseteq> set (map fst sk)"
    by (auto simp: py_from_def dest: in_set_dropD)
  with all have "set (py_from n (map fst sk)) \<subseteq> loss_keys ?s1" by simp
  from drop_loop_ok [OF this] dr have r2: "r2 = None" by simp
  note fr = drop_loop_frame [OF dr, unfolded keys_inv_def]
  have up: "set (py_upto n (map fst sk)) \<subseteq> set (map fst sk)"
    by (auto simp: py_upto_def dest: in_set_takeD)
  from up all fr have 1: "set (py_upto n (map fst sk)) \<subseteq> loss_keys s2" by simp
  from up all preds fr have 2: "set (py_upto n (map fst sk)) \<subseteq> pred_keys s2" by auto
  from fr have "\<And>k. read_np_fn e s2 k = read_np_fn e s k"
    by (simp add: read_np_fn_def)
  with readable sk have 3: "\<forall>k\<in>set (py_upto n (map fst sk)). \<exists>a. read_np_fn e s2 k = Inr a"
    by simp
  from load_loop_ok [OF 1 2 3] ld have r3: "r3 = None" by simp
  from get_n_best_preds_unfold [OF rd db pr dr ld] r2 r3 sk show ?thesis by simp
qed

subsection \<open>The kept count of a fractional ensemble_nbest\<close>

lemma py_int_nonneg: "0 \<le> x \<Longrightarrow> py_int x = \<lfloor>x\<rfloor>"
  by (simp add: py_int_def)

lemma nearest_rounding_int:
  assumes "nearest_rounding e" and "\<bar>k\<bar> \<le> 2 ^ 53"
  shows "fl e (real_of_int k) = real_of_int k"
proof -
  from assms have "fl e (real_of_int k / 2 ^ 0) = real_of_int k / 2 ^ 0"
    unfolding nearest_rounding_def by blast
  then show ?thesis by simp
qed

lemma nearest_rounding_between:
  assumes nr: "nearest_rounding e"
    and x: "real_of_int a \<le> x" "x \<le> real_of_int b"
    and ab: "\<bar>a\<bar> \<le> 2 ^ 53" "\<bar>b\<bar> \<le> 2 ^ 53"
  shows "real_of_int a \<le> fl e x \<and> fl e x \<le> real_of_int b"
proof -
  from nr have m: "mono (fl e)" by (simp add: nearest_rounding_def)
  from monoD [OF m x(1)] nearest_rounding_int [OF nr ab(1)] have "real_of_int a \<le> fl e x" by simp
  moreover from monoD [OF m x(2)] nearest_rounding_int [OF nr ab(2)] have "fl e x \<le> real_of_int b" by simp
  ultimately show ?thesis ..
qed

lemma max_one_mono:
  fixes a b c :: int
  shows "a \<le> b \<Longrightarrow> b \<le> c \<Longrightarrow> max 1 a \<le> max 1 b \<and> max 1 b \<le> max 1 c"
  by linarith

text \<open>
  Claim C3, as amended. Let \<open>f\<close> be the float that \<^verbatim>\<open>ensemble_nbest\<close> holds, in [0,1], and
  \<open>n\<close> the length of the candidate list, at most \<open>2 ^ 53\<close> (so that it is a float). With
  rounding to nearest, the kept count of lines 1074-1077 is the float product \<open>fl (n * f)\<close>
  truncated by \<^verbatim>\<open>int\<close>, and at least 1: it is the floor of the exact product, or one more
  when the float product rounds up to the next integer. The product is truncated, not
  rounded to the nearest integer.
\<close>

theorem keep_nbest_fraction:
  assumes nr: "nearest_rounding e" and f: "0 \<le> f" "f \<le> 1" and n: "n \<le> 2 ^ 53"
  shows "keep_nbest_of e (PFloat f) n = max 1 \<lfloor>fl e (real n * f)\<rfloor>
         \<and> max 1 \<lfloor>real n * f\<rfloor> \<le> keep_nbest_of e (PFloat f) n
         \<and> keep_nbest_of e (PFloat f) n \<le> max 1 \<lceil>real n * f\<rceil>"
proof -
  let ?x = "real n * f"
  from f have x0: "0 \<le> ?x" by simp
  from f have xn: "?x \<le> real n" by (simp add: mult_left_le)
  from n have nb: "\<bar>int n\<bar> \<le> 2 ^ 53"
    using of_nat_mono [of n "2 ^ 53", where ?'a = int] by simp
  from x0 have f0: "0 \<le> \<lfloor>?x\<rfloor>" by simp
  from xn have "\<lfloor>?x\<rfloor> \<le> int n" by (simp add: floor_le_iff)
  with f0 nb have fb: "\<bar>\<lfloor>?x\<rfloor>\<bar> \<le> 2 ^ 53" by linarith
  from x0 have c0: "0 \<le> \<lceil>?x\<rceil>" by (simp add: le_ceiling_iff)
  from xn have "\<lceil>?x\<rceil> \<le> int n" by (simp add: ceiling_le_iff)
  with c0 nb have cb: "\<bar>\<lceil>?x\<rceil>\<bar> \<le> 2 ^ 53" by linarith
  from nearest_rounding_between [OF nr _ _ _ nb, of 0 ?x] x0 xn
  have r0: "0 \<le> fl e ?x" and rn: "fl e ?x \<le> real n" by simp_all
  from nearest_rounding_between [OF nr _ _ fb cb, of ?x]
  have lo: "real_of_int \<lfloor>?x\<rfloor> \<le> fl e ?x" and hi: "fl e ?x \<le> real_of_int \<lceil>?x\<rceil>"
    by simp_all
  from rn have le: "\<lfloor>fl e ?x\<rfloor> \<le> int n" by (simp add: floor_le_iff)
  from r0 le have eq: "keep_nbest_of e (PFloat f) n = max 1 \<lfloor>fl e ?x\<rfloor>"
    by (simp add: keep_nbest_of_def py_int_nonneg)
  from lo have "\<lfloor>?x\<rfloor> \<le> \<lfloor>fl e ?x\<rfloor>" by (simp add: le_floor_iff)
  moreover from hi have "\<lfloor>fl e ?x\<rfloor> \<le> \<lceil>?x\<rceil>" by (simp add: floor_le_iff)
  ultimately have "max 1 \<lfloor>?x\<rfloor> \<le> max 1 \<lfloor>fl e ?x\<rfloor> \<and> max 1 \<lfloor>fl e ?x\<rfloor> \<le> max 1 \<lceil>?x\<rceil>"
    by (rule max_one_mono)
  then show ?thesis unfolding eq by (rule conjI [OF refl])
qed

theorem keep_nbest_fraction_witness:
  "nearest_rounding ex_env \<and> keep_nbest_of ex_env (PFloat (1 / 2)) 3 = 1"
  using keep_nbest_fraction [of ex_env "1 / 2" 3]
  by (simp add: nearest_rounding_def ex_env_def mono_def)

text \<open>
  The float 0.7 is \<open>3152519739159347 / 2 ^ 52\<close>, and 10 times it is \<open>7 - 1 / 2 ^ 51\<close>,
  halfway between the floats \<open>7 - 1 / 2 ^ 50\<close> and 7; rounding to nearest, ties to even,
  gives 7. So Python's \<^verbatim>\<open>int(10 * 0.7)\<close> is 7, where the floor of the exact product is 6.
\<close>

lemma keep_nbest_float_product:
  assumes "fl e (7 - 1 / 2 ^ 51) = 7"
  shows "keep_nbest_of e (PFloat (3152519739159347 / 2 ^ 52)) 10 = 7
         \<and> \<lfloor>real 10 * (3152519739159347 / 2 ^ 52)\<rfloor> = (6::int)"
proof -
  have "real 10 * (3152519739159347 / 2 ^ 52) = 7 - 1 / 2 ^ 51" by simp
  with assms have "fl e (real 10 * (3152519739159347 / 2 ^ 52)) = 7" by simp
  then have "keep_nbest_of e (PFloat (3152519739159347 / 2 ^ 52)) 10 = 7"
    by (simp add: keep_nbest_of_def py_int_def del: of_nat_numeral)
  moreover have "\<lfloor>real 10 * (3152519739159347 / 2 ^ 52)\<rfloor> = (6::int)"
    by (simp add: floor_eq_iff)
  ultimately show ?thesis ..
qed

text \<open>
  Claim C3 as stated fails: with 3 candidates and the fraction 0.5 the code keeps
  \<^verbatim>\<open>max(1, min(3, int(1.5)))\<close> = 1 model, where rounding to the nearest gives 2; on
  the example cache \<^verbatim>\<open>get_n_best_preds\<close> returns one path.
\<close>

theorem keep_nbest_round_counterexample:
  "keep_nbest_of ex_env (PFloat (1 / 2)) 3 = 1 \<and> max 1 (round (real 3 * (1 / 2))) = (2::int)
   \<and> snd (get_n_best_preds ex_env (ex_builder\<lparr>ensemble_nbest := PFloat (1 / 2)\<rparr>)) = Inr [''a2.npy'']"
  by (simp add: keep_nbest_of_def py_int_def round_def get_n_best_preds_def ex_builder_def
      ex_record_def ex_env_def get_list_of_sorted_preds_def loss_items_def remove_dummy_def
      disc_budget_def restrict_to_resident_def performance_range_def py_from_def py_upto_def
      drop_model_def load_model_def read_np_fn_def suffix_to_prefix)

subsection \<open>The memory limit in run\<close>

text \<open>
  Claim C2. A fractional \<^verbatim>\<open>ensemble_nbest\<close> of 0.8 is not halved to 0.4 when
  \<^verbatim>\<open>main\<close> hits the memory limit: \<^verbatim>\<open>int(0.8 / 2)\<close> is the integer 0, and \<^verbatim>\<open>run\<close>
  returns with it.
\<close>

theorem memory_limit_fraction:
  "memory_limit_step (s\<lparr>ensemble_nbest := PFloat (4 / 5)\<rparr>) = (s\<lparr>ensemble_nbest := PInt 0\<rparr>, True)"
  by (simp add: memory_limit_step_def py_int_def)

text \<open>
  For an integer \<^verbatim>\<open>ensemble_nbest\<close> the step is as claim C2 says: halved (and \<^verbatim>\<open>run\<close>
  returns) from 2 on; at the floor \<^verbatim>\<open>read_at_most\<close> becomes 1, and once that is 1
  \<^verbatim>\<open>ensemble_nbest\<close> becomes 0, the loop going on in both cases.
\<close>

lemma memory_limit_integer:
  assumes "ensemble_nbest s = PInt n"
  shows "memory_limit_step s =
    (if 2 \<le> n then (s\<lparr>ensemble_nbest := PInt (n div 2)\<rparr>, True)
     else if read_at_most s = 1 then (s\<lparr>ensemble_nbest := PInt 0\<rparr>, False)
     else (s\<lparr>read_at_most := 1\<rparr>, False))"
proof -
  have "\<lfloor>real_of_int n / 2\<rfloor> = n div 2"
    by (metis floor_divide_of_int_eq of_int_numeral)
  moreover have "2 \<le> n \<Longrightarrow> max 1 (n div 2) = n div 2" by simp
  ultimately show ?thesis using assms
    by (auto simp: memory_limit_step_def py_int_def)
qed

lemma run_loop_keeps_running:
  assumes "ensemble_nbest s = PInt n" and "n \<le> 1" and "read_at_most s = 1"
  shows "run_loop (MemoryLimit # rounds) s = run_loop rounds (s\<lparr>ensemble_nbest := PInt 0\<rparr>)"
  using assms by (simp add: memory_limit_step_def)

subsection \<open>The performance range needs a dummy record\<close>

lemma no_dummy_remove:
  assumes "\<forall>(k, v)\<in>set (read_losses s). num_run v \<noteq> 1"
  shows "remove_dummy s (get_list_of_sorted_preds s) = (get_list_of_sorted_preds s, None)"
proof -
  have "\<forall>x\<in>set (get_list_of_sorted_preds s). key_run x \<noteq> 1"
    using assms by (auto simp: get_list_of_sorted_preds_def loss_items_def)
  then have "filter (\<lambda>x. key_run x = 1) (get_list_of_sorted_preds s) = []"
    by (simp add: filter_empty_conv)
  then show ?thesis by (simp add: remove_dummy_def)
qed

text \<open>
  Claim C9. With a positive \<^verbatim>\<open>performance_range_threshold\<close> and no record of
  num_run 1 in the cache, \<^verbatim>\<open>get_n_best_preds\<close> raises: \<^verbatim>\<open>dummy_loss\<close> is unbound
  at line 1140 (or an earlier statement has raised already).
\<close>

theorem range_needs_dummy:
  assumes "performance_range_threshold s > 0"
    and "\<forall>(k, v)\<in>set (read_losses s). num_run v \<noteq> 1"
  shows "\<exists>err. snd (get_n_best_preds e s) = Inl err"
proof -
  note rd = no_dummy_remove [OF assms(2)]
  have "\<exists>err. kept_count e s = Inl err"
  proof (cases "disc_budget e s")
    case (Inl a)
    then show ?thesis by (simp add: kept_count_def)
  next
    case (Inr mrm)
    with assms(1) rd show ?thesis
      by (simp add: kept_count_def candidate_keys_def performance_range_def split: list.splits)
  qed
  then show ?thesis using get_n_best_preds_error by blast
qed

theorem range_needs_dummy_witness:
  "performance_range_threshold (ex_builder\<lparr>performance_range_threshold := 1 / 2\<rparr>) > 0
   \<and> map (\<lambda>(k, v). num_run v) (read_losses (ex_builder\<lparr>performance_range_threshold := 1 / 2\<rparr>)) = [5, 2, 7]
   \<and> (\<exists>err. snd (get_n_best_preds ex_env (ex_builder\<lparr>performance_range_threshold := 1 / 2\<rparr>)) = Inl err)"
  using range_needs_dummy [of "ex_builder\<lparr>performance_range_threshold := 1 / 2\<rparr>" ex_env]
  by (simp add: ex_builder_def ex_record_def)

text \<open>On the example cache the error is the unbound variable.\<close>

lemma range_needs_dummy_example:
  "snd (get_n_best_preds ex_env (ex_builder\<lparr>performance_range_threshold := 1 / 2\<rparr>)) = Inl UnboundLocalError"
  by (simp add: get_n_best_preds_def ex_builder_def ex_record_def get_list_of_sorted_preds_def
      loss_items_def remove_dummy_def keep_nbest_of_def disc_budget_def restrict_to_resident_def
      performance_range_def)

subsection \<open>Ties of the loss are broken by the run id\<close>

lemma sorted_preds_sorted:
  "sorted (map (\<lambda>x. (key_loss x, key_run x)) (get_list_of_sorted_preds s))"
  by (simp add: get_list_of_sorted_preds_def)

text \<open>
  A list whose keys are distinct has one sorted arrangement, so the order of the dict
  does not show in the sorted list.
\<close>

lemma sort_key_unique:
  assumes m: "mset xs = mset ys" and s: "sorted (map f ys)" and d: "distinct (map f ys)"
  shows "sort_key f xs = ys"
proof -
  from m have mm: "mset (map f (sort_key f xs)) = mset (map f ys)" by simp
  from d mm have d': "distinct (map f (sort_key f xs))"
    by (metis mset_eq_imp_distinct_iff)
  from mm have "set (map f (sort_key f xs)) = set (map f ys)" by (rule mset_eq_setD)
  with s d d' have eq: "map f (sort_key f xs) = map f ys"
    by (intro sorted_distinct_set_unique) simp_all
  from m have st: "set (sort_key f xs) = set ys" using mset_eq_setD [OF m] by simp
  from d have "inj_on f (set ys)" by (simp add: distinct_map)
  with st have "inj_on f (set (sort_key f xs) \<union> set ys)" by simp
  from inj_on_map_eq_map [OF this] eq show ?thesis by simp
qed

text \<open>
  Two caches with the same entries, each with its own (loss, run id), have the same
  sorted list.
\<close>

lemma sorted_preds_deterministic:
  assumes same: "mset (read_losses s) = mset (read_losses s')"
    and keys: "distinct (map (\<lambda>x. (key_loss x, key_run x)) (loss_items (read_losses s)))"
  shows "get_list_of_sorted_preds s = get_list_of_sorted_preds s'"
proof -
  define f where "f = (\<lambda>x :: pred_key. (key_loss x, key_run x))"
  define xs where "xs = loss_items (read_losses s)"
  define ys where "ys = get_list_of_sorted_preds s'"
  have "mset xs = image_mset (\<lambda>(k, v). (k, ens_loss v, num_run v)) (mset (read_losses s))"
    unfolding xs_def loss_items_def by (rule mset_map)
  also have "\<dots> = image_mset (\<lambda>(k, v). (k, ens_loss v, num_run v)) (mset (read_losses s'))"
    unfolding same ..
  also have "\<dots> = mset (loss_items (read_losses s'))"
    unfolding loss_items_def by (rule mset_map [symmetric])
  also have "\<dots> = mset ys"
    unfolding ys_def get_list_of_sorted_preds_def by (rule mset_sort [symmetric])
  finally have m: "mset xs = mset ys" .
  then have "mset (map f xs) = mset (map f ys)"
    unfolding mset_map by (rule arg_cong)
  moreover from keys have "distinct (map f xs)" unfolding f_def xs_def .
  ultimately have d: "distinct (map f ys)"
    using mset_eq_imp_distinct_iff by blast
  have s: "sorted (map f ys)"
    unfolding f_def ys_def by (rule sorted_preds_sorted)
  from sort_key_unique [OF m s d] show ?thesis
    unfolding f_def xs_def ys_def get_list_of_sorted_preds_def .
qed

text \<open>
  Claim C7. A cache of three records with losses 0.5, 0.3, 0.3 and run ids 5, 2, 7
  (none a dummy), in whatever order the dict holds them, the integer
  \<^verbatim>\<open>ensemble_nbest\<close> 2, no disk limit and threshold 0: the sorted list is run 2, run 7,
  run 5, the two records of loss 0.3 in the order of their run ids, and
  \<^verbatim>\<open>get_n_best_preds\<close> returns the paths of run 2 and run 7 in this order, provided
  the two files can be read and every cached loss has its entry in \<^verbatim>\<open>read_preds\<close> (as
  \<^verbatim>\<open>compute_loss_per_model\<close> leaves the caches).
\<close>

theorem tie_break_by_run:
  assumes cache: "mset (read_losses s) = {#(p5, v5), (p2, v2), (p7, v7)#}"
    and l5: "ens_loss v5 = Fin (1 / 2)" "num_run v5 = 5"
    and l2: "ens_loss v2 = Fin (3 / 10)" "num_run v2 = 2"
    and l7: "ens_loss v7 = Fin (3 / 10)" "num_run v7 = 7"
    and conf: "ensemble_nbest s = PInt 2" "max_models_on_disc s = None"
      "max_resident_models s = None" "performance_range_threshold s = 0"
    and preds: "loss_keys s \<subseteq> pred_keys s"
    and readable: "\<exists>a. read_np_fn e s p2 = Inr a" "\<exists>a. read_np_fn e s p7 = Inr a"
  shows "get_list_of_sorted_preds s = [(p2, Fin (3 / 10), 2), (p7, Fin (3 / 10), 7), (p5, Fin (1 / 2), 5)]
         \<and> snd (get_n_best_preds e s) = Inr [p2, p7]"
proof -
  let ?ys = "[(p2, Fin (3 / 10), 2), (p7, Fin (3 / 10), 7), (p5, Fin (1 / 2), 5 :: int)]"
  have "mset (loss_items (read_losses s)) =
          image_mset (\<lambda>(k, v). (k, ens_loss v, num_run v)) (mset (read_losses s))"
    by (simp add: loss_items_def)
  then have m: "mset (loss_items (read_losses s)) = mset ?ys"
    by (simp add: cache l5 l2 l7)
  have sorted: "get_list_of_sorted_preds s = ?ys"
    unfolding get_list_of_sorted_preds_def
    by (rule sort_key_unique [OF m]) simp_all
  from cache have "set (read_losses s) = {(p5, v5), (p2, v2), (p7, v7)}"
    using mset_eq_setD [of "read_losses s" "[(p5, v5), (p2, v2), (p7, v7)]"] by simp
  then have "\<forall>(k, v)\<in>set (read_losses s). num_run v \<noteq> 1"
    by (simp add: l5 l2 l7)
  note rd = no_dummy_remove [OF this]
  have cand: "candidate_keys s = get_list_of_sorted_preds s"
    by (simp add: candidate_keys_def rd)
  have kc: "kept_count e s = Inr 2"
    by (simp add: kept_count_def cand rd sorted conf disc_budget_def keep_nbest_of_def
        restrict_to_resident_def performance_range_def)
  have keys: "py_upto 2 (map fst (candidate_keys s)) = [p2, p7]"
    by (simp add: cand sorted py_upto_def)
  from readable have "\<forall>k\<in>set (py_upto 2 (map fst (candidate_keys s))). \<exists>a. read_np_fn e s k = Inr a"
    by (simp add: keys)
  from get_n_best_preds_returns [OF kc preds this] keys sorted show ?thesis by simp
qed

text \<open>
  The instance with the dict in the order run 7, run 5, run 2: sorting by the loss
  alone, which is stable, would leave run 7 before run 2.
\<close>

theorem tie_break_by_run_witness:
  "read_losses ex_ties =
     [(''a7.npy'', ex_record (Fin (3 / 10)) 7), (''a5.npy'', ex_record (Fin (1 / 2)) 5),
      (''a2.npy'', ex_record (Fin (3 / 10)) 2)]
   \<and> sort_key key_loss (loss_items (read_losses ex_ties)) =
       [(''a7.npy'', Fin (3 / 10), 7), (''a2.npy'', Fin (3 / 10), 2), (''a5.npy'', Fin (1 / 2), 5)]
   \<and> get_list_of_sorted_preds ex_ties =
       [(''a2.npy'', Fin (3 / 10), 2), (''a7.npy'', Fin (3 / 10), 7), (''a5.npy'', Fin (1 / 2), 5)]
   \<and> snd (get_n_best_preds ex_env ex_ties) = Inr [''a2.npy'', ''a7.npy'']"
  using tie_break_by_run [of ex_ties "''a5.npy''" "ex_record (Fin (1 / 2)) 5"
      "''a2.npy''" "ex_record (Fin (3 / 10)) 2" "''a7.npy''" "ex_record (Fin (3 / 10)) 7" ex_env]
  by (simp add: ex_ties_def ex_builder_def ex_record_def ex_env_def read_np_fn_def suffix_to_prefix
      loss_items_def)

subsection \<open>The disk budget in megabytes\<close>

lemma argmax_bool_first:
  "argmax_bool (map (\<lambda>x. b < x) xs) =
     (if \<exists>x\<in>set xs. b < x then length (takeWhile (\<lambda>x. x \<le> b) xs) else 0)"
  for b :: real
proof -
  have "takeWhile Not (map (\<lambda>x. b < x) xs) = map (\<lambda>x. b < x) (takeWhile (\<lambda>x. x \<le> b) xs)"
    by (simp add: takeWhile_map comp_def not_less)
  then show ?thesis by (auto simp: argmax_bool_def)
qed

lemma disc_budget_float:
  assumes budget: "max_models_on_disc s = Some (PFloat b)"
    and cons: "consumption_of (read_losses s) = c # cs"
  shows "disc_budget e s =
           Inr (let costs = map snd (c # cs); largest = Max (set costs);
                    cum = sorted_cum_consumption e (c # cs) largest
                in if fl e (float_sum e costs + largest) \<le> b then None
                   else Some (max 1 (if \<exists>x\<in>set cum. b < x
                                     then int (length (takeWhile (\<lambda>x. x \<le> b) cum)) else 0)))"
proof -
  have mx: "Max (set (map snd (c # cs))) = fold max (map snd cs) (snd c)"
    using Max.set_eq_fold [of "snd c" "map snd cs"] by simp
  show ?thesis
    unfolding Let_def mx disc_budget_def budget cons argmax_bool_first
    by (auto simp: not_less simp del: sort_key_simps)
qed

text \<open>
  Claim C5. The law of lines 1091-1127 for a float budget \<open>b\<close> and a cache with at least
  one measured record. Let \<open>largest\<close> be the greatest cost and \<open>cum\<close> the cumulative costs
  in ascending order of (loss, cost), each plus \<open>largest\<close>. When the sum of all costs
  plus \<open>largest\<close> is within \<open>b\<close>, \<^verbatim>\<open>get_n_best_preds\<close> leaves \<^verbatim>\<open>max_resident_models\<close> = None;
  otherwise it leaves max(1, k), where k is the first 0-indexed position of \<open>cum\<close> that
  exceeds \<open>b\<close> (and 0 should there be none); also when the call raises afterwards.
  The scenario of the claim is the instance \<open>b\<close> = 10.0 with three costs of 4 MB:
  \<open>cum\<close> = [8, 12, 16], k = 1 and \<^verbatim>\<open>max_resident_models\<close> = 1.
\<close>

theorem float_budget_law:
  assumes budget: "max_models_on_disc s = Some (PFloat b)"
    and cons: "consumption_of (read_losses s) = c # cs"
  shows "max_resident_models (fst (get_n_best_preds e s)) =
           (let costs = map snd (c # cs); largest = Max (set costs);
                cum = sorted_cum_consumption e (c # cs) largest
            in if fl e (float_sum e costs + largest) \<le> b then None
               else Some (max 1 (if \<exists>x\<in>set cum. b < x
                                 then int (length (takeWhile (\<lambda>x. x \<le> b) cum)) else 0)))"
  by (rule get_n_best_preds_mrm [OF disc_budget_float [OF assms]])

text \<open>
  The scenario on the example cache, and the cache of costs 5, 1, 1, 1 with the budget
  8.5, where the order of the losses gives \<open>cum\<close> = [6, 7, 8, 13] and 3 resident models.
\<close>

theorem float_budget_law_witness:
  "consumption_of (read_losses (ex_builder\<lparr>max_models_on_disc := Some (PFloat 10)\<rparr>)) =
     [(Fin (1 / 2), 4), (Fin (3 / 10), 4), (Fin (3 / 10), 4)]
   \<and> sorted_cum_consumption ex_env
        (consumption_of (read_losses (ex_builder\<lparr>max_models_on_disc := Some (PFloat 10)\<rparr>))) 4 =
       [8, 12, 16]
   \<and> max_resident_models
        (fst (get_n_best_preds ex_env (ex_builder\<lparr>max_models_on_disc := Some (PFloat 10)\<rparr>))) = Some 1
   \<and> consumption_of (read_losses ex_budget) =
       [(Fin (9 / 10), 5), (Fin (1 / 10), 1), (Fin (2 / 10), 1), (Fin (3 / 10), 1)]
   \<and> sorted_cum_consumption ex_env (consumption_of (read_losses ex_budget)) 5 = [6, 7, 8, 13]
   \<and> max_resident_models (fst (get_n_best_preds ex_env ex_budget)) = Some 3"
  using float_budget_law [of "ex_builder\<lparr>max_models_on_disc := Some (PFloat 10)\<rparr>" 10
      "(Fin (1 / 2), 4)" "[(Fin (3 / 10), 4), (Fin (3 / 10), 4)]" ex_env]
    float_budget_law [of ex_budget "17 / 2" "(Fin (9 / 10), 5)"
      "[(Fin (1 / 10), 1), (Fin (2 / 10), 1), (Fin (3 / 10), 1)]" ex_env]
  by (simp add: ex_budget_def ex_builder_def ex_record_def ex_env_def consumption_of_def
      sorted_cum_consumption_def cumsum_def)

text \<open>
  The scenario for any three records of 4 MB, with rounding to nearest and a float sum
  of 12: the first position of [8, 12, 16] above 10 is 1.
\<close>

lemma map_snd_sort_const:
  assumes "\<forall>x\<in>set xs. snd x = c"
  shows "map snd (sort xs) = replicate (length xs) c"
proof (rule replicate_eqI)
  show "length (map snd (sort xs)) = length xs" by simp
next
  fix y assume "y \<in> set (map snd (sort xs))"
  with assms show "y = c" by auto
qed

lemma float_budget_scenario:
  assumes nr: "nearest_rounding e" and total: "float_sum e [4, 4, 4] = 12"
    and budget: "max_models_on_disc s = Some (PFloat 10)"
    and cache: "read_losses s = [(k1, v1), (k2, v2), (k3, v3)]"
    and costs: "disc_space_cost_mb v1 = Some 4" "disc_space_cost_mb v2 = Some 4"
      "disc_space_cost_mb v3 = Some 4"
  shows "sorted_cum_consumption e (consumption_of (read_losses s)) 4 = [8, 12, 16]
         \<and> length (takeWhile (\<lambda>x. x \<le> 10) [8, 12, 16 :: real]) = 1
         \<and> max_resident_models (fst (get_n_best_preds e s)) = Some 1"
proof -
  let ?c = "(ens_loss v1, 4 :: real)"
  let ?cs = "[(ens_loss v2, 4), (ens_loss v3, 4 :: real)]"
  have cons: "consumption_of (read_losses s) = ?c # ?cs"
    by (simp add: consumption_of_def cache costs)
  have "map snd (sort (?c # ?cs)) = replicate (length (?c # ?cs)) 4"
    by (rule map_snd_sort_const) simp
  then have srt: "map snd (sort (?c # ?cs)) = [4, 4, 4]"
    by (simp add: numeral_3_eq_3)
  from nearest_rounding_int [OF nr, of 8] nearest_rounding_int [OF nr, of 12]
    nearest_rounding_int [OF nr, of 16]
  have fl: "fl e 8 = 8" "fl e 12 = 12" "fl e 16 = 16" by simp_all
  have cum: "sorted_cum_consumption e (?c # ?cs) 4 = [8, 12, 16]"
    by (simp add: sorted_cum_consumption_def srt cumsum_def fl del: sort_key_simps)
  have "disc_budget e s = Inr (Some 1)"
    unfolding disc_budget_float [OF budget cons] Let_def
    by (simp add: cum total fl del: sort_key_simps)
  from get_n_best_preds_mrm [OF this] cons cum show ?thesis by simp
qed

subsection \<open>The performance range\<close>

text \<open>
  The loop of lines 1146-1154 stops at the first index whose loss is not below the
  cutoff.
\<close>

lemma range_scan_first:
  assumes "i + n \<le> length xs"
  shows "range_scan xs (Some c) i n =
           Inr (if \<exists>x\<in>set (take n (drop i xs)). c \<le> key_loss x
                then Some (i + length (takeWhile (\<lambda>x. key_loss x < c) (take n (drop i xs))))
                else None)"
  using assms
proof (induction n arbitrary: i)
  case 0
  show ?case by simp
next
  case (Suc n)
  then have i: "i < length xs" by simp
  then have dr: "take (Suc n) (drop i xs) = xs ! i # take n (drop (Suc i) xs)"
    by (simp flip: Cons_nth_drop_Suc)
  from Suc have IH: "range_scan xs (Some c) (Suc i) n =
      Inr (if \<exists>x\<in>set (take n (drop (Suc i) xs)). c \<le> key_loss x
           then Some (Suc i + length (takeWhile (\<lambda>x. key_loss x < c) (take n (drop (Suc i) xs))))
           else None)"
    by simp
  show ?case
  proof (cases "c \<le> key_loss (xs ! i)")
    case True
    then show ?thesis unfolding dr by (simp add: i ge_cutoff_def not_less)
  next
    case False
    moreover from False have "key_loss (xs ! i) < c" by simp
    ultimately show ?thesis unfolding dr by (simp add: i ge_cutoff_def IH)
  qed
qed

lemma last_take:
  assumes "n \<noteq> 0" and "n \<le> length xs"
  shows "last (take n xs) = xs ! (n - 1)"
proof -
  from assms have "take n xs \<noteq> []" by auto
  from last_conv_nth [OF this] assms show ?thesis by (simp add: min_def)
qed

lemma performance_range_first:
  assumes thr: "0 < t"
    and cut: "range_cutoff e (key_loss d) (key_loss best) t = Some c"
    and keep: "1 \<le> keep" "keep \<le> int (length (best # rest))"
  shows "performance_range e t (best # rest) (Some d) keep =
           Inr (if key_loss (last (take (nat keep) (best # rest))) \<le> c then keep
                else max 1 (int (length (takeWhile (\<lambda>x. key_loss x < c)
                                          (take (nat keep) (best # rest))))))"
proof -
  let ?xs = "best # rest"
  let ?kept = "take (nat keep) ?xs"
  from keep have idx: "py_index ?xs (keep - 1) = Inr (?xs ! nat (keep - 1))"
    by (simp add: py_index_def)
  from keep have len: "nat keep \<le> length ?xs" and pos: "nat keep \<noteq> 0" by simp_all
  from last_take [OF pos len] keep
  have lst: "last ?kept = ?xs ! nat (keep - 1)"
    by (simp add: nat_diff_distrib)
  show ?thesis
  proof (cases "key_loss (last ?kept) \<le> c")
    case True
    then have "\<not> gt_cutoff (key_loss (?xs ! nat (keep - 1))) (Some c)"
      by (simp add: gt_cutoff_def lst not_less)
    with thr cut idx True show ?thesis
      by (simp add: performance_range_def Let_def)
  next
    case False
    then have gt: "gt_cutoff (key_loss (?xs ! nat (keep - 1))) (Some c)"
      by (simp add: gt_cutoff_def lst not_le)
    from pos have "?kept \<noteq> []" by auto
    then have "last ?kept \<in> set ?kept" by (rule last_in_set)
    with False have ex: "\<exists>x\<in>set (take (nat keep) (drop 0 ?xs)). c \<le> key_loss x"
      by (auto simp: not_le intro: less_imp_le)
    from len have "0 + nat keep \<le> length ?xs" by simp
    from range_scan_first [OF this, of c] ex
    have scan: "range_scan ?xs (Some c) 0 (nat keep) =
        Inr (Some (length (takeWhile (\<lambda>x. key_loss x < c) ?kept)))"
      by simp
    from thr cut idx gt scan False show ?thesis
      by (simp add: performance_range_def Let_def)
  qed
qed



text \<open>
  The numbers of the claim, with rounding to nearest: threshold 0.5, dummy loss 2.0 and
  best loss 4.0 give the cutoff 3.0, and the step keeps one model when the loss of the
  last kept candidate is above 3.0, and all of them otherwise.
\<close>

lemma range_scenario:
  assumes nr: "nearest_rounding e"
    and best: "key_loss best = Fin 4" and dummy: "key_loss d = Fin 2"
    and keep: "1 \<le> keep" "keep \<le> int (length (best # rest))"
  shows "range_cutoff e (key_loss d) (key_loss best) (1 / 2) = Some (Fin 3)
         \<and> performance_range e (1 / 2) (best # rest) (Some d) keep =
             Inr (if key_loss (last (take (nat keep) (best # rest))) \<le> Fin 3 then keep else 1)"
proof -
  from nearest_rounding_int [OF nr, of "- 2"] nearest_rounding_int [OF nr, of "- 1"]
    nearest_rounding_int [OF nr, of 3]
  have fl: "fl e (- 2) = - 2" "fl e (- 1) = - 1" "fl e 3 = 3" by simp_all
  have cut: "range_cutoff e (key_loss d) (key_loss best) (1 / 2) = Some (Fin 3)"
    by (simp add: range_cutoff_def best dummy fl)
  from keep obtain m where m: "nat keep = Suc m"
    by (cases "nat keep") simp_all
  have "takeWhile (\<lambda>x. key_loss x < Fin 3) (take (nat keep) (best # rest)) = []"
    by (simp add: m best)
  with performance_range_first [OF _ cut keep] cut show ?thesis by simp
qed


text \<open>
  \<^verbatim>\<open>get_n_best_preds\<close> prunes on the cache of dummy records of losses 4.0 and 5.0, the
  dummy of loss 2.0 being of another seed: only the first is returned.
\<close>

lemma range_scenario_reached:
  "candidate_keys ex_dummies = [(''b4.npy'', Fin 4, 1), (''b5.npy'', Fin 5, 1)]
   \<and> snd (get_n_best_preds ex_env ex_dummies) = Inr [''b4.npy'']"
  by (simp add: get_n_best_preds_def candidate_keys_def ex_dummies_def ex_builder_def ex_record_def
      ex_env_def get_list_of_sorted_preds_def loss_items_def remove_dummy_def dummy_fallback_def
      keep_nbest_of_def disc_budget_def restrict_to_resident_def performance_range_def
      range_cutoff_def gt_cutoff_def ge_cutoff_def py_index_def py_from_def py_upto_def
      drop_model_def load_model_def read_np_fn_def suffix_to_prefix numeral_2_eq_2)

subsection \<open>Refitting on unchanged predictions\<close>

lemma lookup_all_Inr:
  "lookup_all al ks = Inr vs \<longleftrightarrow> map (map_of al) ks = map Some vs"
proof (induction ks arbitrary: vs)
  case Nil
  then show ?case by auto
next
  case (Cons k ks)
  show ?case
  proof (cases "map_of al k")
    case None
    then show ?thesis by auto
  next
    case (Some v)
    show ?thesis
    proof (cases "lookup_all al ks")
      case (Inl err)
      with Cons.IH have "\<And>ws. map (map_of al) ks \<noteq> map Some ws" by simp
      with Some Inl show ?thesis by (cases vs) auto
    next
      case (Inr ws)
      with Cons.IH [of ws] have "map (map_of al) ks = map Some ws" by simp
      with Some Inr show ?thesis by (cases vs) auto
    qed
  qed
qed

lemma lookup_all_total:
  "set ks \<subseteq> dom (map_of al) \<Longrightarrow> \<exists>vs. lookup_all al ks = Inr vs"
proof (induction ks)
  case Nil
  then show ?case by simp
next
  case (Cons k ks)
  then obtain v vs where "map_of al k = Some v" "lookup_all al ks = Inr vs" by auto
  then show ?case by simp
qed

lemma fit_ensemble_Some:
  assumes "fit_ensemble ft s ks = (s1, Inr (Some ens))"
  shows "\<exists>ps vs h. \<not> unit_test s \<and> lookup_all (read_preds s) ks = Inr ps
           \<and> lookup_all (read_losses s) ks = Inr vs
           \<and> current_hash (map Y_ENSEMBLE ps) = Inr h \<and> s1 = s\<lparr>last_hash := Some h\<rparr>"
proof -
  from assms have ut: "\<not> unit_test s"
    by (auto simp: fit_ensemble_def)
  from assms ut obtain ps where ps: "lookup_all (read_preds s) ks = Inr ps"
    by (cases "lookup_all (read_preds s) ks") (simp_all add: fit_ensemble_def)
  from assms ut ps obtain vs where vs: "lookup_all (read_losses s) ks = Inr vs"
    by (cases "lookup_all (read_losses s) ks") (simp_all add: fit_ensemble_def)
  from assms ut ps vs obtain h where h: "current_hash (map Y_ENSEMBLE ps) = Inr h"
    by (cases "current_hash (map Y_ENSEMBLE ps)") (simp_all add: fit_ensemble_def)
  from assms ut ps vs h have "s1 = s\<lparr>last_hash := Some h\<rparr>"
    by (simp add: fit_ensemble_def Let_def split: if_splits option.splits sum.splits error.splits)
  with ut ps vs h show ?thesis by blast
qed

text \<open>
  Claim C8. After a call of \<^verbatim>\<open>fit_ensemble\<close> that returned an ensemble, a call with
  the same keys on a builder holding the same prediction arrays for them and the same
  \<^verbatim>\<open>last_hash\<close> returns \<^verbatim>\<open>None\<close> and leaves the builder, \<^verbatim>\<open>last_hash\<close> included, as
  it was: the fingerprint is compared before anything is fitted.
\<close>

theorem refit_unchanged:
  assumes first: "fit_ensemble ft s ks = (s1, Inr (Some ens))"
    and same: "\<forall>k\<in>set ks. map_option Y_ENSEMBLE (map_of (read_preds s2) k)
                            = map_option Y_ENSEMBLE (map_of (read_preds s1) k)"
    and hash: "last_hash s2 = last_hash s1"
    and losses: "set ks \<subseteq> loss_keys s2"
    and ut: "\<not> unit_test s2"
  shows "fit_ensemble ft' s2 ks = (s2, Inr None)"
proof -
  from fit_ensemble_Some [OF first] obtain ps vs h where
    ps: "lookup_all (read_preds s) ks = Inr ps" and
    h: "current_hash (map Y_ENSEMBLE ps) = Inr h" and
    s1: "s1 = s\<lparr>last_hash := Some h\<rparr>" by blast
  from ps have m1: "map (map_of (read_preds s)) ks = map Some ps"
    by (simp add: lookup_all_Inr)
  from same s1 have eq: "map (map_option Y_ENSEMBLE \<circ> map_of (read_preds s2)) ks
      = map (map_option Y_ENSEMBLE \<circ> map_of (read_preds s)) ks"
    by simp
  have "set ks \<subseteq> pred_keys s2"
  proof
    fix k assume k: "k \<in> set ks"
    with m1 have "map_of (read_preds s) k \<noteq> None"
      by (metis (no_types, lifting) image_iff list.set_map option.distinct(1))
    moreover from same k s1 have "map_option Y_ENSEMBLE (map_of (read_preds s2) k)
        = map_option Y_ENSEMBLE (map_of (read_preds s) k)" by simp
    ultimately have "map_of (read_preds s2) k \<noteq> None"
      by (cases "map_of (read_preds s2) k") auto
    then show "k \<in> pred_keys s2" by auto
  qed
  from lookup_all_total [OF this] obtain ps2 where ps2: "lookup_all (read_preds s2) ks = Inr ps2"
    by blast
  then have m2: "map (map_of (read_preds s2)) ks = map Some ps2"
    by (simp add: lookup_all_Inr)
  have "map (map_option Y_ENSEMBLE) (map (map_of (read_preds s2)) ks)
      = map (map_option Y_ENSEMBLE) (map (map_of (read_preds s)) ks)"
    using eq by simp
  then have "map (\<lambda>p. Some (Y_ENSEMBLE p)) ps2 = map (\<lambda>p. Some (Y_ENSEMBLE p)) ps"
    by (simp add: m1 m2 comp_def)
  then have "map Some (map Y_ENSEMBLE ps2) = map Some (map Y_ENSEMBLE ps)"
    by (simp add: comp_def)
  then have same_arrays: "map Y_ENSEMBLE ps2 = map Y_ENSEMBLE ps"
    using inj_map_eq_map [of Some] by (simp del: map_map)
  from lookup_all_total [OF losses] obtain vs2 where vs2: "lookup_all (read_losses s2) ks = Inr vs2"
    by blast
  from hash s1 have "last_hash s2 = Some h" by simp
  with ut ps2 vs2 same_arrays h show ?thesis
    by (simp add: fit_ensemble_def)
qed

theorem refit_unchanged_witness:
  "fit_ensemble ex_fitter ex_loaded [''a2.npy'', ''a7.npy''] =
     (ex_loaded\<lparr>last_hash := Some ''393220262148''\<rparr>,
      Inr (Some \<lparr>members = [(1, 2, 5), (1, 7, 5)], validation_loss = Fin (1 / 4)\<rparr>))
   \<and> fit_ensemble ex_fitter (ex_loaded\<lparr>last_hash := Some ''393220262148''\<rparr>) [''a2.npy'', ''a7.npy'']
       = (ex_loaded\<lparr>last_hash := Some ''393220262148''\<rparr>, Inr None)"
proof -
  have first: "fit_ensemble ex_fitter ex_loaded [''a2.npy'', ''a7.npy''] =
     (ex_loaded\<lparr>last_hash := Some ''393220262148''\<rparr>,
      Inr (Some \<lparr>members = [(1, 2, 5), (1, 7, 5)], validation_loss = Fin (1 / 4)\<rparr>))"
    by (simp add: fit_ensemble_def ex_fitter_def ex_loaded_def ex_builder_def ex_record_def
        adler32_def str_nat.simps)
  have "fit_ensemble ex_fitter (ex_loaded\<lparr>last_hash := Some ''393220262148''\<rparr>) [''a2.npy'', ''a7.npy'']
       = (ex_loaded\<lparr>last_hash := Some ''393220262148''\<rparr>, Inr None)"
    by (rule refit_unchanged [OF first])
       (simp_all add: ex_loaded_def ex_builder_def)
  with first show ?thesis by simp
qed

subsection \<open>What the cap read_at_most counts\<close>


lemma ensure_entries_fields [simp]:
  "precision (ensure_entries fn sd nr bd s) = precision s"
  "y_true_ensemble (ensure_entries fn sd nr bd s) = y_true_ensemble s"
  "read_at_most (ensure_entries fn sd nr bd s) = read_at_most s"
  by (simp_all add: ensure_entries_def)

lemma set_loss_record_simps [simp]:
  "precision (set_loss_record fn v s) = precision s"
  "y_true_ensemble (set_loss_record fn v s) = y_true_ensemble s"
  "read_at_most (set_loss_record fn v s) = read_at_most s"
  "map_of (read_losses (set_loss_record fn v s)) p = (if p = fn then Some v else map_of (read_losses s) p)"
  by (simp_all add: set_loss_record_def update_conv')





lemma read_np_fn_ensure [simp]:
  "read_np_fn e (ensure_entries fn sd nr bd s) p = read_np_fn e s p"
  by (simp add: read_np_fn_def)









subsection \<open>The resident set and the disk reclaimer\<close>

lemma sorted_preds_by_loss:
  "sorted (map key_loss (get_list_of_sorted_preds s))"
proof -
  have "sorted_wrt (\<lambda>x y. (key_loss x, key_run x) \<le> (key_loss y, key_run y)) (get_list_of_sorted_preds s)"
    using sorted_preds_sorted [of s] by (simp add: sorted_map)
  then have "sorted_wrt (\<lambda>x y. key_loss x \<le> key_loss y) (get_list_of_sorted_preds s)"
    by (rule sorted_wrt_mono_rel [rotated]) auto
  then show ?thesis by (simp add: sorted_map)
qed

lemma filter_less_takeWhile:
  fixes f :: "'a \<Rightarrow> 'b::linorder"
  assumes "sorted (map f xs)"
  shows "filter (\<lambda>x. f x < c) xs = takeWhile (\<lambda>x. f x < c) xs"
  using assms
proof (induction xs)
  case Nil
  then show ?case by simp
next
  case (Cons x xs)
  show ?case
  proof (cases "f x < c")
    case True
    with Cons show ?thesis by simp
  next
    case False
    with Cons.prems have "\<forall>y\<in>set xs. \<not> f y < c" by auto
    then have "filter (\<lambda>x. f x < c) xs = []" by (simp add: filter_empty_conv)
    with False show ?thesis by simp
  qed
qed

lemma first_dummy_least:
  assumes "filter (\<lambda>x. key_run x = 1) (get_list_of_sorted_preds s) = d # ds"
    and "x \<in> set (get_list_of_sorted_preds s)" and "key_run x = 1"
  shows "key_loss d \<le> key_loss x"
proof -
  from assms(1) obtain us vs where xs: "get_list_of_sorted_preds s = us @ d # vs"
    and us: "\<forall>u\<in>set us. key_run u \<noteq> 1"
    by (auto simp: filter_eq_Cons_iff)
  from assms(2,3) xs us have "x = d \<or> x \<in> set vs" by auto
  moreover from sorted_preds_by_loss [of s] xs have "\<forall>y\<in>set vs. key_loss d \<le> key_loss y"
    by (simp add: sorted_append)
  ultimately show ?thesis by auto
qed

lemma candidates_prefix_or_fallback:
  assumes "\<forall>x\<in>set (get_list_of_sorted_preds s). 1 \<le> key_run x"
  shows "prefix (candidate_keys s) (get_list_of_sorted_preds s)
         \<or> candidate_keys s = dummy_fallback s"
proof (cases "filter (\<lambda>x. key_run x = 1) (get_list_of_sorted_preds s)")
  case Nil
  then show ?thesis by (simp add: candidate_keys_def remove_dummy_def)
next
  case (Cons d ds)
  let ?xs = "get_list_of_sorted_preds s"
  let ?better = "filter (\<lambda>x. key_loss x < key_loss d) ?xs"
  have "\<forall>x\<in>set ?better. key_run x > 1"
  proof
    fix x assume "x \<in> set ?better"
    then have x: "x \<in> set ?xs" "key_loss x < key_loss d" by simp_all
    have ne: "key_run x \<noteq> 1"
    proof
      assume "key_run x = 1"
      from first_dummy_least [OF Cons x(1) this] x(2) show False by simp
    qed
    from assms x(1) have "1 \<le> key_run x" by blast
    with ne show "key_run x > 1" by linarith
  qed
  then have "filter (\<lambda>x. key_run x > 1) ?better = ?better"
    by (simp only: filter_id_conv)
  moreover have "?better = takeWhile (\<lambda>x. key_loss x < key_loss d) ?xs"
    by (rule filter_less_takeWhile [OF sorted_preds_by_loss])
  moreover have "prefix (takeWhile (\<lambda>x. key_loss x < key_loss d) ?xs) ?xs"
    by (metis takeWhile_dropWhile_id prefixI)
  ultimately show ?thesis
    using Cons by (simp add: candidate_keys_def remove_dummy_def Let_def)
qed

lemma range_scan_bound:
  "range_scan sk w i n = Inr (Some j) \<Longrightarrow> j < i + n"
proof (induction n arbitrary: i)
  case 0
  then show ?case by simp
next
  case (Suc n)
  show ?case
  proof (cases "i < length sk \<and> \<not> ge_cutoff (key_loss (sk ! i)) w")
    case True
    with Suc.prems have "range_scan sk w (Suc i) n = Inr (Some j)" by simp
    from Suc.IH [OF this] show ?thesis by simp
  next
    case False
    with Suc.prems have "j = i" by (auto split: if_splits)
    then show ?thesis by simp
  qed
qed

lemma performance_range_bound:
  assumes "performance_range e t sk dl k = Inr n" and "0 \<le> k"
  shows "0 \<le> n \<and> n \<le> k"
proof (cases "t > 0")
  case False
  with assms show ?thesis by (simp add: performance_range_def)
next
  case True
  from assms True obtain best rest where sk: "sk = best # rest"
    by (cases sk) (simp_all add: performance_range_def)
  from assms True sk obtain d where dl: "dl = Some d"
    by (cases dl) (simp_all add: performance_range_def)
  let ?w = "range_cutoff e (key_loss d) (key_loss best) t"
  from assms True sk dl obtain x where x: "py_index sk (k - 1) = Inr x"
    by (cases "py_index sk (k - 1)") (simp_all add: performance_range_def)
  show ?thesis
  proof (cases "gt_cutoff (key_loss x) ?w")
    case False
    with assms True sk dl x show ?thesis by (simp add: performance_range_def)
  next
    case gt: True
    show ?thesis
    proof (cases "range_scan sk ?w 0 (nat k)")
      case (Inl err)
      with assms True sk dl x gt show ?thesis by (simp add: performance_range_def)
    next
      case (Inr r)
      show ?thesis
      proof (cases r)
        case None
        with Inr assms True sk dl x gt show ?thesis by (simp add: performance_range_def)
      next
        case (Some j)
        with Inr range_scan_bound [of sk ?w 0 "nat k" j] have "j < nat k" by simp
        moreover from Some Inr assms True sk dl x gt have "n = max 1 (int j)"
          by (simp add: performance_range_def)
        ultimately show ?thesis by auto
      qed
    qed
  qed
qed

lemma disc_budget_nonneg:
  assumes "config_ok s" and "disc_budget e s = Inr (Some m)"
  shows "0 \<le> m"
proof (cases "max_models_on_disc s")
  case None
  with assms show ?thesis by (simp add: config_ok_def disc_budget_def)
next
  case (Some b)
  show ?thesis
  proof (cases b)
    case (PInt i)
    with Some assms show ?thesis by (simp add: config_ok_def disc_budget_def)
  next
    case (PFloat f)
    with Some assms show ?thesis
      by (auto simp: disc_budget_def Let_def split: list.splits if_splits)
  qed
qed

lemma keep_nbest_nonneg:
  "config_ok s \<Longrightarrow> 0 \<le> keep_nbest_of e (ensemble_nbest s) n"
  by (cases "ensemble_nbest s") (simp_all add: config_ok_def keep_nbest_of_def)

lemma kept_count_bound:
  assumes "config_ok s" and "disc_budget e s = Inr mrm" and "kept_count e s = Inr n"
  shows "0 \<le> n \<and> (\<forall>m. mrm = Some m \<longrightarrow> n \<le> m)"
proof -
  let ?init = "keep_nbest_of e (ensemble_nbest s) (length (candidate_keys s))"
  let ?kept = "restrict_to_resident mrm ?init"
  from keep_nbest_nonneg [OF assms(1)] have k0: "0 \<le> ?init" .
  have k: "0 \<le> ?kept \<and> (\<forall>m. mrm = Some m \<longrightarrow> ?kept \<le> m)"
  proof (cases mrm)
    case None
    with k0 show ?thesis by (simp add: restrict_to_resident_def)
  next
    case (Some m)
    with disc_budget_nonneg [OF assms(1)] assms(2) have "0 \<le> m" by simp
    with Some k0 show ?thesis by (simp add: restrict_to_resident_def)
  qed
  from assms(2,3) have "performance_range e (performance_range_threshold s) (candidate_keys s)
      (snd (remove_dummy s (get_list_of_sorted_preds s))) ?kept = Inr n"
    by (simp add: kept_count_def)
  from performance_range_bound [OF this] k show ?thesis by force
qed

lemma loss_items_update:
  assumes "map_of al k = Some v" and "ens_loss v' = ens_loss v" and "num_run v' = num_run v"
  shows "loss_items (AList.update k v' al) = loss_items al"
  using assms(1)
proof (induction al)
  case Nil
  then show ?case by simp
next
  case (Cons a al)
  obtain k' w where a: "a = (k', w)" by (cases a)
  show ?case
  proof (cases "k' = k")
    case True
    with Cons.prems a have "w = v" by simp
    with True a assms(2,3) show ?thesis by (simp add: loss_items_def)
  next
    case False
    with Cons.prems a have "map_of al k = Some v" by simp
    from Cons.IH [OF this] False a show ?thesis by (simp add: loss_items_def)
  qed
qed

lemma drop_model_losses:
  "drop_model k s = (s', r) \<Longrightarrow> loss_items (read_losses s') = loss_items (read_losses s)"
  unfolding drop_model_def Let_def
  by (cases "map_of (read_preds s) k"; cases "map_of (read_losses s) k")
     (auto simp: loss_items_update split: if_splits)

lemma load_model_losses:
  "load_model e k s = (s', r) \<Longrightarrow> loss_items (read_losses s') = loss_items (read_losses s)"
  unfolding load_model_def
  by (cases "map_of (read_preds s) k"; cases "map_of (read_losses s) k"; cases "read_np_fn e s k")
     (auto simp: loss_items_update split: if_splits)

lemma same_losses_refl: "same_losses s s"
  by (simp add: same_losses_def)

lemma drop_loop_losses:
  assumes "for_each drop_model ks s = (s', r)"
  shows "loss_items (read_losses s') = loss_items (read_losses s)"
proof -
  have step: "\<And>x t t' r'. drop_model x t = (t', r') \<Longrightarrow> same_losses s t \<Longrightarrow> same_losses s t'"
    by (simp add: same_losses_def drop_model_losses)
  have "same_losses s s'"
    by (rule for_each_inv [where f = drop_model and P = "same_losses s", OF step assms same_losses_refl])
  then show ?thesis by (simp add: same_losses_def)
qed

lemma load_loop_losses:
  assumes "for_each (load_model e) ks s = (s', r)"
  shows "loss_items (read_losses s') = loss_items (read_losses s)"
proof -
  have step: "\<And>x t t' r'. load_model e x t = (t', r') \<Longrightarrow> same_losses s t \<Longrightarrow> same_losses s t'"
    by (simp add: same_losses_def load_model_losses)
  have "same_losses s s'"
    by (rule for_each_inv [where f = "load_model e" and P = "same_losses s", OF step assms same_losses_refl])
  then show ?thesis by (simp add: same_losses_def)
qed

lemma get_n_best_preds_losses:
  "loss_items (read_losses (fst (get_n_best_preds e s))) = loss_items (read_losses s)"
proof -
  obtain sk dl where rd: "remove_dummy s (get_list_of_sorted_preds s) = (sk, dl)"
    by (cases "remove_dummy s (get_list_of_sorted_preds s)")
  show ?thesis
  proof (cases "disc_budget e s")
    case (Inl err)
    with rd show ?thesis by (simp add: get_n_best_preds_def)
  next
    case (Inr mrm)
    let ?s1 = "s\<lparr>max_resident_models := mrm\<rparr>"
    let ?kept = "restrict_to_resident mrm (keep_nbest_of e (ensemble_nbest s) (length sk))"
    show ?thesis
    proof (cases "performance_range e (performance_range_threshold s) sk dl ?kept")
      case (Inl err)
      with rd Inr show ?thesis by (simp add: get_n_best_preds_def Let_def)
    next
      case pr: (Inr n)
      obtain s2 r2 where dr: "for_each drop_model (py_from n (map fst sk)) ?s1 = (s2, r2)"
        by (cases "for_each drop_model (py_from n (map fst sk)) ?s1")
      obtain s3 r3 where ld: "for_each (load_model e) (py_upto n (map fst sk)) s2 = (s3, r3)"
        by (cases "for_each (load_model e) (py_upto n (map fst sk)) s2")
      from drop_loop_losses [OF dr] have 2: "loss_items (read_losses s2) = loss_items (read_losses s)"
        by simp
      with load_loop_losses [OF ld] have 3: "loss_items (read_losses s3) = loss_items (read_losses s)"
        by simp
      from get_n_best_preds_unfold [OF rd Inr pr dr ld] 2 3 show ?thesis
        by (cases r2; cases r3) simp_all
    qed
  qed
qed

lemma delete_model_removed:
  assumes "delete_model e cands p st = (st', r)" and "\<forall>q\<in>set (snd st). deletable e cands q"
  shows "\<forall>q\<in>set (snd st'). deletable e cands q"
proof -
  obtain s rem where st: "st = (s, rem)" by (cases st)
  show ?thesis
  proof (cases "p \<in> set cands \<or> p \<in> has_been_candidate s")
    case True
    with assms st show ?thesis by (auto simp: delete_model_def split: if_splits)
  next
    case False
    show ?thesis
    proof (cases "model_fn_re e p")
      case None
      with False assms st show ?thesis by (auto simp: delete_model_def)
    next
      case (Some run)
      obtain sd nr bd where run: "run = (sd, nr, bd)" by (cases run)
      show ?thesis
      proof (cases "nr \<noteq> 1 \<and> rmtree e (sd, nr, bd)")
        case False
        with \<open>\<not> (p \<in> set cands \<or> p \<in> has_been_candidate s)\<close> Some run assms st
        show ?thesis by (auto simp: delete_model_def split: if_splits)
      next
        case True
        with \<open>\<not> (p \<in> set cands \<or> p \<in> has_been_candidate s)\<close> Some run
        have "deletable e cands p" by (simp add: deletable_def)
        moreover from True \<open>\<not> (p \<in> set cands \<or> p \<in> has_been_candidate s)\<close> Some run assms(1) st
        have "snd st' = rem @ [p]"
          by (cases "map_of (read_losses s) p") (auto simp: delete_model_def split: if_splits)
        ultimately show ?thesis using assms(2) st by simp
      qed
    qed
  qed
qed

lemma delete_excess_models_removed:
  assumes "delete_excess_models e t sel = ((t', removed), r)" and "p \<in> set removed"
  shows "\<exists>m. max_resident_models t = Some m
           \<and> deletable e (py_upto m (map fst (get_list_of_sorted_preds t))) p"
proof (cases "max_resident_models t")
  case None
  with assms show ?thesis by (simp add: delete_excess_models_def)
next
  case (Some m)
  let ?keys = "map fst (get_list_of_sorted_preds t)"
  show ?thesis
  proof (cases "int (length ?keys) \<le> m")
    case True
    with Some assms show ?thesis by (simp add: delete_excess_models_def)
  next
    case False
    let ?c = "py_upto m ?keys"
    let ?P = "removed_ok e ?c"
    from False Some assms(1) have loop:
      "for_each (delete_model e ?c) (y_ens_files t) (t, []) = ((t', removed), r)"
      by (simp add: delete_excess_models_def Let_def)
    have step: "\<And>x st st' r'. delete_model e ?c x st = (st', r') \<Longrightarrow> ?P st \<Longrightarrow> ?P st'"
      using delete_model_removed by (simp add: removed_ok_def)
    have init: "?P (t, [])" by (simp add: removed_ok_def)
    have "?P (t', removed)"
      by (rule for_each_inv [where f = "delete_model e ?c" and P = ?P, OF step loop init])
    with assms(2) Some show ?thesis by (simp add: removed_ok_def)
  qed
qed

lemma prefix_take_subset:
  assumes "prefix ys xs" and "a \<le> b"
  shows "set (take a (map f ys)) \<subseteq> set (take b (map f xs))"
proof -
  from assms(1) obtain zs where xs: "xs = ys @ zs" by (auto elim: prefixE)
  let ?l = "length (take a (map f ys))"
  have "take a (map f ys) = take ?l (map f xs)"
    by (simp add: xs min_def take_map)
  moreover have "?l \<le> b" using assms(2) by simp
  ultimately show ?thesis
    by (metis set_take_subset_set_take)
qed

text \<open>
  Claim C1. Let \<^verbatim>\<open>get_n_best_preds\<close> return the list \<open>keys\<close>, on a cache whose run
  ids are at least 1 (the source notes that there is no run id 0) and agree with what
  the file names parse to (as \<^verbatim>\<open>compute_loss_per_model\<close> writes them). Then \<open>keys\<close>
  is not longer than \<^verbatim>\<open>max_resident_models\<close> when that is set; and
  \<^verbatim>\<open>_delete_excess_models\<close>, run on a builder with the same cached losses and the same
  \<^verbatim>\<open>max_resident_models\<close> (what \<^verbatim>\<open>main\<close> does in between changes neither), removes
  no run directory of a file in \<open>keys\<close> and none of a file with run id 1. The
  protection comes from the first \<^verbatim>\<open>max_resident_models\<close> entries of the sorted
  cache; the parameter \<^verbatim>\<open>selected_keys\<close> plays no part.
\<close>

theorem resident_candidates_kept:
  assumes ret: "get_n_best_preds e s = (s1, Inr keys)"
    and conf: "config_ok s"
    and cache: "\<forall>(k, v)\<in>set (read_losses s).
                  1 \<le> num_run v \<and> (\<exists>sd bd. model_fn_re e k = Some (sd, num_run v, bd))"
    and between: "loss_items (read_losses t) = loss_items (read_losses s1)"
      "max_resident_models t = max_resident_models s1"
    and del: "delete_excess_models e t selected_keys = ((t', removed), r)"
  shows "(\<forall>m. max_resident_models s1 = Some m \<longrightarrow> int (length keys) \<le> m)
         \<and> (\<forall>p\<in>set removed. p \<notin> set keys
               \<and> (\<forall>sd nr bd. model_fn_re e p = Some (sd, nr, bd) \<longrightarrow> nr \<noteq> 1))"
proof -
  from get_n_best_preds_result [OF ret] obtain mrm n where
    db: "disc_budget e s = Inr mrm" and kc: "kept_count e s = Inr n" and
    keys: "keys = py_upto n (map fst (candidate_keys s))" and
    mrm: "max_resident_models s1 = mrm" by blast
  from kept_count_bound [OF conf db kc] have n0: "0 \<le> n"
    and nm: "\<And>m. mrm = Some m \<Longrightarrow> n \<le> m" by simp_all
  from n0 keys have keys_take: "keys = take (nat n) (map fst (candidate_keys s))"
    by (simp add: py_upto_def)
  then have len: "int (length keys) \<le> n" using n0 by simp
  have part1: "\<forall>m. max_resident_models s1 = Some m \<longrightarrow> int (length keys) \<le> m"
    using len nm mrm by force
  from ret have "loss_items (read_losses s1) = loss_items (read_losses s)"
    using get_n_best_preds_losses [of e s] by simp
  with between(1) have sorted_t: "get_list_of_sorted_preds t = get_list_of_sorted_preds s"
    by (simp add: get_list_of_sorted_preds_def)
  have runs: "\<forall>x\<in>set (get_list_of_sorted_preds s). 1 \<le> key_run x"
    using cache by (auto simp: get_list_of_sorted_preds_def loss_items_def)
  have part2: "\<forall>p\<in>set removed. p \<notin> set keys
      \<and> (\<forall>sd nr bd. model_fn_re e p = Some (sd, nr, bd) \<longrightarrow> nr \<noteq> 1)"
  proof
    fix p assume "p \<in> set removed"
    from delete_excess_models_removed [OF del this] obtain m where
      m: "max_resident_models t = Some m" and
      dp: "deletable e (py_upto m (map fst (get_list_of_sorted_preds t))) p" by blast
    from m between(2) mrm have mrm_m: "mrm = Some m" by simp
    from nm [OF this] n0 have nle: "nat n \<le> nat m" and m0: "0 \<le> m" by simp_all
    from dp sorted_t m0 have notin: "p \<notin> set (take (nat m) (map fst (get_list_of_sorted_preds s)))"
      by (simp add: deletable_def py_upto_def)
    from dp have run: "\<forall>sd nr bd. model_fn_re e p = Some (sd, nr, bd) \<longrightarrow> nr \<noteq> 1"
      by (auto simp: deletable_def)
    have "p \<notin> set keys"
    proof
      assume pk: "p \<in> set keys"
      from candidates_prefix_or_fallback [OF runs] show False
      proof
        assume "prefix (candidate_keys s) (get_list_of_sorted_preds s)"
        from prefix_take_subset [OF this nle, of fst] pk keys_take notin show False by blast
      next
        assume "candidate_keys s = dummy_fallback s"
        with pk keys_take have "p \<in> fst ` set (dummy_fallback s)"
          by (auto dest: in_set_takeD)
        then obtain v where "(p, v) \<in> set (read_losses s)" "num_run v = 1"
          by (auto simp: dummy_fallback_def loss_items_def)
        with cache obtain sd bd where "model_fn_re e p = Some (sd, 1, bd)" by fastforce
        with run show False by blast
      qed
    qed
    with run show "p \<notin> set keys \<and> (\<forall>sd nr bd. model_fn_re e p = Some (sd, nr, bd) \<longrightarrow> nr \<noteq> 1)"
      by blast
  qed
  from part1 part2 show ?thesis by blast
qed

lemma ex_selection:
  "get_n_best_preds ex_parsing ex_limited = (ex_selected, Inr [''a2.npy''])"
  by (simp add: get_n_best_preds_def ex_selected_def ex_limited_def ex_parsing_def ex_builder_def
      ex_record_def ex_env_def get_list_of_sorted_preds_def loss_items_def remove_dummy_def
      keep_nbest_of_def disc_budget_def restrict_to_resident_def performance_range_def
      py_from_def py_upto_def drop_model_def load_model_def read_np_fn_def suffix_to_prefix)

lemma ex_deletion:
  "snd (fst (delete_excess_models ex_parsing ex_selected [''a2.npy''])) = [''a5.npy'', ''a7.npy'']"
  by (simp add: delete_excess_models_def delete_model_def ex_selected_def ex_limited_def
      ex_parsing_def ex_builder_def ex_record_def ex_env_def get_list_of_sorted_preds_def
      loss_items_def py_upto_def set_loss_record_def)

theorem resident_candidates_kept_witness:
  "get_n_best_preds ex_parsing ex_limited = (ex_selected, Inr [''a2.npy''])
   \<and> max_resident_models ex_selected = Some 1
   \<and> int (length [''a2.npy'']) \<le> 1
   \<and> ''a2.npy'' \<notin> set (snd (fst (delete_excess_models ex_parsing ex_selected [''a2.npy''])))"
proof -
  let ?d = "delete_excess_models ex_parsing ex_selected [''a2.npy'']"
  have conf: "config_ok ex_limited"
    by (simp add: config_ok_def ex_limited_def ex_builder_def)
  have cache: "\<forall>(k, v)\<in>set (read_losses ex_limited).
      1 \<le> num_run v \<and> (\<exists>sd bd. model_fn_re ex_parsing k = Some (sd, num_run v, bd))"
    by (simp add: ex_limited_def ex_builder_def ex_record_def ex_parsing_def)
  have del: "?d = ((fst (fst ?d), snd (fst ?d)), snd ?d)" by simp
  have m: "max_resident_models ex_selected = Some 1"
    by (simp add: ex_selected_def)
  from resident_candidates_kept [OF ex_selection conf cache refl refl del] m ex_selection
  show ?thesis by auto
qed

subsection \<open>The dummy record as a floor\<close>

lemma candidate_keys_dummy:
  assumes dummy: "(kd, vd) \<in> set (read_losses s)" "num_run vd = 1"
    and least: "\<forall>(k, v)\<in>set (read_losses s). num_run v = 1 \<longrightarrow> ens_loss vd \<le> ens_loss v"
  shows "candidate_keys s =
    (if filter (\<lambda>x. key_loss x < ens_loss vd \<and> 1 < key_run x) (get_list_of_sorted_preds s) = []
     then dummy_fallback s
     else filter (\<lambda>x. key_loss x < ens_loss vd \<and> 1 < key_run x) (get_list_of_sorted_preds s))"
proof -
  let ?xs = "get_list_of_sorted_preds s"
  have set_xs: "set ?xs = set (loss_items (read_losses s))"
    by (simp add: get_list_of_sorted_preds_def)
  from dummy have in_xs: "(kd, ens_loss vd, 1) \<in> set ?xs"
    by (force simp: set_xs loss_items_def)
  then have "filter (\<lambda>x. key_run x = 1) ?xs \<noteq> []"
    by (force simp: filter_empty_conv)
  then obtain d ds where d: "filter (\<lambda>x. key_run x = 1) ?xs = d # ds"
    by (cases "filter (\<lambda>x. key_run x = 1) ?xs") auto
  then have "d \<in> set (filter (\<lambda>x. key_run x = 1) ?xs)" by simp
  then have "d \<in> set ?xs" "key_run d = 1" by simp_all
  then obtain k v where "(k, v) \<in> set (read_losses s)" "num_run v = 1" "key_loss d = ens_loss v"
    by (auto simp: set_xs loss_items_def)
  with least have "ens_loss vd \<le> key_loss d" by force
  moreover from first_dummy_least [OF d in_xs] have "key_loss d \<le> ens_loss vd" by simp
  ultimately have eq: "key_loss d = ens_loss vd" by simp
  have "filter (\<lambda>x. 1 < key_run x) (filter (\<lambda>x. key_loss x < ens_loss vd) ?xs)
      = filter (\<lambda>x. key_loss x < ens_loss vd \<and> 1 < key_run x) ?xs"
    by simp
  with d eq show ?thesis
    by (simp add: candidate_keys_def remove_dummy_def Let_def)
qed

text \<open>
  Claim C4, as amended. Let the cache hold a dummy record (run id 1), \<open>vd\<close> being one
  of smallest loss, and let \<^verbatim>\<open>get_n_best_preds\<close> return \<open>keys\<close>. The candidate list
  holds the sorted records strictly better than \<open>vd\<close> with a run id above 1, so every
  record at least as bad as the dummy and the dummy itself are gone; when none is
  left, the candidate list is exactly the dummy records of this seed, in the cache's
  order. What is returned is the first \<open>n\<close> paths of the candidate list, \<open>n\<close> being
  the count that the nbest, disk and performance-range steps leave.
\<close>

theorem dummy_floor:
  assumes ret: "get_n_best_preds e s = (s1, Inr keys)"
    and dummy: "(kd, vd) \<in> set (read_losses s)" "num_run vd = 1"
    and least: "\<forall>(k, v)\<in>set (read_losses s). num_run v = 1 \<longrightarrow> ens_loss vd \<le> ens_loss v"
  shows "\<exists>n. kept_count e s = Inr n \<and> keys = py_upto n (map fst
    (if filter (\<lambda>x. key_loss x < ens_loss vd \<and> 1 < key_run x) (get_list_of_sorted_preds s) = []
     then dummy_fallback s
     else filter (\<lambda>x. key_loss x < ens_loss vd \<and> 1 < key_run x) (get_list_of_sorted_preds s)))"
  using get_n_best_preds_result [OF ret] candidate_keys_dummy [OF dummy least] by auto

theorem dummy_floor_witness:
  "get_n_best_preds ex_env ex_dummies = (fst (get_n_best_preds ex_env ex_dummies), Inr [''b4.npy''])
   \<and> map (\<lambda>(k, v). (ens_loss v, num_run v)) (read_losses ex_dummies) = [(Fin 4, 1), (Fin 5, 1), (Fin 2, 1)]
   \<and> map fst (dummy_fallback ex_dummies) = [''b4.npy'', ''b5.npy'']
   \<and> (\<exists>n. kept_count ex_env ex_dummies = Inr n \<and> [''b4.npy''] = py_upto n [''b4.npy'', ''b5.npy''])"
proof -
  have ret: "get_n_best_preds ex_env ex_dummies = (fst (get_n_best_preds ex_env ex_dummies), Inr [''b4.npy''])"
    using range_scenario_reached by (simp add: prod_eq_iff)
  let ?vd = "(ex_record (Fin 2) 1)\<lparr>seed := 2\<rparr>"
  have dummy: "(''b2.npy'', ?vd) \<in> set (read_losses ex_dummies)" "num_run ?vd = 1"
    by (simp_all add: ex_dummies_def ex_record_def)
  have least: "\<forall>(k, v)\<in>set (read_losses ex_dummies). num_run v = 1 \<longrightarrow> ens_loss ?vd \<le> ens_loss v"
    by (simp add: ex_dummies_def ex_record_def)
  have items: "map (\<lambda>(k, v). (ens_loss v, num_run v)) (read_losses ex_dummies)
      = [(Fin 4, 1), (Fin 5, 1), (Fin 2, 1)]"
    by (simp add: ex_dummies_def ex_record_def)
  have fb: "map fst (dummy_fallback ex_dummies) = [''b4.npy'', ''b5.npy'']"
    by (simp add: dummy_fallback_def loss_items_def ex_dummies_def ex_builder_def ex_record_def)
  have none: "filter (\<lambda>x. key_loss x < ens_loss ?vd \<and> 1 < key_run x) (get_list_of_sorted_preds ex_dummies) = []"
    by (simp add: get_list_of_sorted_preds_def loss_items_def ex_dummies_def ex_record_def)
  from dummy_floor [OF ret dummy least] none fb ret items show ?thesis by simp
qed

text \<open>
  Claim C4 as stated fails: the returned candidates need not be all the dummy records.
  With \<^verbatim>\<open>ensemble_nbest\<close> = 0 and a cache of one dummy record the fallback list is
  that record, and the returned list is empty.
\<close>

theorem dummy_fallback_counterexample:
  "map (\<lambda>(k, v). num_run v) (read_losses ex_reclaim_only) = [1]
   \<and> map fst (dummy_fallback ex_reclaim_only) = [''d1.npy'']
   \<and> snd (get_n_best_preds ex_env ex_reclaim_only) = Inr []"
  by (simp add: get_n_best_preds_def ex_reclaim_only_def ex_builder_def ex_record_def ex_env_def
      get_list_of_sorted_preds_def loss_items_def remove_dummy_def dummy_fallback_def
      keep_nbest_of_def disc_budget_def restrict_to_resident_def performance_range_def
      py_from_def py_upto_def drop_model_def load_model_def)

end
